theory Spec2Isabelle
  imports Main "HOL-Library.Multiset"
begin

section \<open>JavaScript values used by nodeview.js\<close>

text \<open>
  Every exception the source can raise is a TypeError: reading a property of
  \<open>undefined\<close> or calling \<open>undefined\<close> as a function. An operation that raises
  returns \<open>Inl TypeError\<close>; the state left behind by an aborted call is not modelled.
\<close>

datatype error = TypeError

text \<open>
  A node identifier is \<open>undefined\<close>, a number or a string. Numbers are restricted to
  integers. \<open>truthy\<close> is the JavaScript truth value that \<open>||\<close> and \<open>if\<close> test.
\<close>

datatype jsid = IdUndefined | IdNum int | IdStr string

fun truthy :: "jsid \<Rightarrow> bool" where
  "truthy IdUndefined = False"
| "truthy (IdNum n) = (n \<noteq> 0)"
| "truthy (IdStr s) = (s \<noteq> [])"

definition digit :: "nat \<Rightarrow> char" where
  "digit d = ''0123456789'' ! d"

function str_of_nat :: "nat \<Rightarrow> string" where
  "str_of_nat n = (if n < 10 then [digit n] else str_of_nat (n div 10) @ [digit (n mod 10)])"
  by pat_completeness auto
termination
  by (relation "measure id") auto

declare str_of_nat.simps [simp del]

text \<open>
  \<open>obj[id]\<close> converts the identifier to a property key, a string: the number 0 and the
  string "0" name the same property, and \<open>undefined\<close> names the property "undefined".
  The key of a number is its decimal numeral for the integers of magnitude below \<open>2^53\<close>,
  which JavaScript represents exactly; larger numbers, whose keys are rounded or in
  exponent form, and numbers that are not integers have no counterpart here. \<open>plain_id\<close>
  holds of the identifiers whose key \<open>key_of\<close> gives as JavaScript does; statements that
  compare keys of different identifiers ask for it.
\<close>

fun key_of :: "jsid \<Rightarrow> string" where
  "key_of IdUndefined = ''undefined''"
| "key_of (IdNum n) = (if n < 0 then CHR ''-'' # str_of_nat (nat (- n)) else str_of_nat (nat n))"
| "key_of (IdStr s) = s"

fun plain_id :: "jsid \<Rightarrow> bool" where
  "plain_id (IdNum n) = (\<bar>n\<bar> < 2 ^ 53)"
| "plain_id i = True"

section \<open>Node records and the object store\<close>

type_synonym addr = nat

type_synonym pos = "int \<times> int"

text \<open>
  The fields of a node object that the controller reads or writes: \<open>id\<close>, \<open>x\<close>, \<open>y\<close>,
  \<open>isOpened\<close> and \<open>_children\<close> (\<open>None\<close> is \<open>undefined\<close>). Node objects are shared by
  reference between the registry, the child arrays and the tree that the host's
  prune-nodes callback returns, so they live in a store and are named by address.
\<close>

record node =
  node_id :: jsid
  node_x :: "int option"
  node_y :: "int option"
  isOpened :: "bool option"
  node_children :: "addr list option"

type_synonym store = "addr \<Rightarrow> node"

text \<open>The tree that prune-nodes returns, as the layout traverses it through \<open>children\<close>.\<close>

datatype ptree = PNode addr "ptree list"

fun tree_root :: "ptree \<Rightarrow> addr" where
  "tree_root (PNode a ts) = a"

text \<open>\<open>tree.nodes(root)\<close>: the nodes of the tree, parents before children.\<close>

fun tree_nodes :: "ptree \<Rightarrow> addr list" where
  "tree_nodes (PNode a ts) = a # concat (map tree_nodes ts)"

text \<open>\<open>tree.links(nodes)\<close>: one \<open>{source, target}\<close> pair for each child of each node.\<close>

fun tree_links :: "ptree \<Rightarrow> (addr \<times> addr) list" where
  "tree_links (PNode a ts) = map (\<lambda>t. (a, tree_root t)) ts @ concat (map tree_links ts)"

text \<open>\<open>NodeView._pos(node)\<close>: \<open>{x: node.x || 0, y: node.y || 0}\<close>.\<close>

definition NodeView_pos :: "node \<Rightarrow> pos" where
  "NodeView_pos n =
     ((case node_x n of None \<Rightarrow> 0 | Some v \<Rightarrow> v), (case node_y n of None \<Rightarrow> 0 | Some v \<Rightarrow> v))"

section \<open>Orientation\<close>

datatype orient = TopToBottom | LeftToRight

text \<open>\<open>NodeView.orientation(orientKey)\<close>: falls off the end, returning \<open>undefined\<close>, for any other key.\<close>

definition NodeView_orientation :: "string \<Rightarrow> orient option" where
  "NodeView_orientation orientKey =
     (if orientKey = ''top-to-bottom'' then Some TopToBottom
      else if orientKey = ''left-to-right'' then Some LeftToRight
      else None)"

fun orient_x :: "orient \<Rightarrow> pos \<Rightarrow> int" where
  "orient_x TopToBottom d = fst d"
| "orient_x LeftToRight d = snd d"

fun orient_y :: "orient \<Rightarrow> pos \<Rightarrow> int" where
  "orient_y TopToBottom d = snd d"
| "orient_y LeftToRight d = fst d"

section \<open>The controller\<close>

record view_config =
  selector :: string
  orientKey :: string
  nodeWidth :: int
  nodeHeight :: int
  duration :: int

text \<open>
  A host callback. Only prune-nodes returns a value that the controller uses: the tree
  to lay out, or \<open>undefined\<close>. Callbacks read the store and do not write it.
\<close>

type_synonym callback = "store \<Rightarrow> addr option \<Rightarrow> ptree option"

text \<open>
  What a call of the controller does to its surroundings, in order: the host callbacks it
  invokes, the tree it hands to the layout (\<open>this.tree.nodes\<close>), and the elements it
  creates at, or sends towards, a reference position.
\<close>

datatype effect =
    CallGetChildren jsid
  | CallPruneNodes "addr option"
  | CallTreeNodes ptree
  | CallUpdateNodes "addr list"
  | CallAddNodes "addr list"
  | EnterNodes "addr list" pos
  | ExitNodes "addr list" pos
  | EnterLinks "(addr \<times> addr) list" pos
  | ExitLinks "(addr \<times> addr) list" pos

text \<open>
  An element of the container is shown, or it is leaving: \<open>_removeNodes\<close> and
  \<open>_removeLinks\<close> start a transition on the exiting elements that removes them when it
  ends, so they are still in the container when \<open>_update\<close> returns.
\<close>

datatype phase = Shown | Leaving

text \<open>
  The fields of a NodeView. \<open>g_nodes\<close> and \<open>path_links\<close> are the \<open>g.node\<close> and \<open>path.link\<close>
  elements in the container, in document order, each with the datum bound to it.
  \<open>tree_layout\<close> is the layout algorithm of \<open>d3.layout.tree\<close>, a parameter: from the node
  size and the tree it gives every node its coordinates.

  \<open>nodeData\<close> holds the own properties of the registry object. The object is created as
  \<open>{}\<close>, so a lookup \<open>this.nodeData[key]\<close> that finds no own property continues in
  \<open>Object.prototype\<close>: \<open>inherited\<close> gives, for every property name found there
  (\<open>toString\<close>, \<open>constructor\<close>, ...), the address of the object that is its value. An
  assignment to the key \<open>__proto__\<close>, which would give the registry object another
  prototype instead of an own property, is not modelled.
\<close>

record nodeview =
  config :: view_config
  handlers :: "string \<rightharpoonup> callback"
  nextId :: nat
  orientation :: "orient option"
  zoom :: "pos \<times> int"
  nodeSize :: "int \<times> int"
  tree_layout :: "int \<times> int \<Rightarrow> ptree \<Rightarrow> addr \<Rightarrow> pos"
  nodeData :: "string \<rightharpoonup> addr"
  currentId :: jsid
  inherited :: "string \<rightharpoonup> addr"
  g_nodes :: "(addr \<times> phase) list"
  path_links :: "((addr \<times> addr) \<times> phase) list"
  store :: store
  effects :: "effect list"

text \<open>\<open>this.nodeData[key]\<close>: an own property, or else an inherited one.\<close>

definition registry_get :: "nodeview \<Rightarrow> string \<Rightarrow> addr option" where
  "registry_get s k = (case nodeData s k of Some a \<Rightarrow> Some a | None \<Rightarrow> inherited s k)"

text \<open>\<open>this.x(d)\<close> and \<open>this.y(d)\<close> read a field of \<open>this.orientation\<close>, which may be undefined.\<close>

definition view_x :: "nodeview \<Rightarrow> pos \<Rightarrow> error + int" where
  "view_x s d = (case orientation s of None \<Rightarrow> Inl TypeError | Some ori \<Rightarrow> Inr (orient_x ori d))"

definition view_y :: "nodeview \<Rightarrow> pos \<Rightarrow> error + int" where
  "view_y s d = (case orientation s of None \<Rightarrow> Inl TypeError | Some ori \<Rightarrow> Inr (orient_y ori d))"

text \<open>\<open>_translate(d)\<close>, and likewise the projection of \<open>this.diagonal\<close>: both coordinates of \<open>d\<close>.\<close>

definition translate :: "nodeview \<Rightarrow> pos \<Rightarrow> error + pos" where
  "translate s d =
     (case view_x s d of Inl e \<Rightarrow> Inl e
      | Inr vx \<Rightarrow> (case view_y s d of Inl e \<Rightarrow> Inl e | Inr vy \<Rightarrow> Inr (vx, vy)))"

text \<open>
  \<open>reload()\<close>: the current id and the handlers are not reset. The new registry \<open>{}\<close> has
  no own property and inherits what the old one inherited.
\<close>

definition reload :: "nodeview \<Rightarrow> nodeview" where
  "reload s = s\<lparr>nextId := 0,
               orientation := NodeView_orientation (orientKey (config s)),
               zoom := ((0, 0), 1),
               g_nodes := [],
               path_links := [],
               nodeSize := (nodeWidth (config s), nodeHeight (config s)),
               nodeData := Map.empty\<rparr>"

text \<open>
  \<open>new NodeView(config)\<close>, in a store \<open>st\<close>, with the properties \<open>proto\<close> of
  \<open>Object.prototype\<close> and with the layout algorithm \<open>lay\<close>.
\<close>

definition constructor ::
  "(string \<rightharpoonup> addr) \<Rightarrow> (int \<times> int \<Rightarrow> ptree \<Rightarrow> addr \<Rightarrow> pos) \<Rightarrow> store \<Rightarrow> view_config \<Rightarrow> nodeview" where
  "constructor proto lay st cfg =
     reload \<lparr>config = cfg, handlers = Map.empty, nextId = 0, orientation = None,
             zoom = ((0, 0), 1), nodeSize = (0, 0), tree_layout = lay, nodeData = Map.empty,
             currentId = IdUndefined, inherited = proto, g_nodes = [], path_links = [],
             store = st, effects = []\<rparr>"

text \<open>\<open>on(event, handler)\<close>.\<close>

definition on :: "nodeview \<Rightarrow> string \<Rightarrow> callback \<Rightarrow> nodeview" where
  "on s event handler = s\<lparr>handlers := (handlers s)(event \<mapsto> handler)\<rparr>"

text \<open>\<open>centerNode()\<close>: translate [0,0], scale 1.\<close>

definition centerNode :: "nodeview \<Rightarrow> nodeview" where
  "centerNode s = s\<lparr>zoom := ((0, 0), 1)\<rparr>"

section \<open>The render pass\<close>

text \<open>
  The reference node of a pass: \<open>this.nodeData[toggleId || this.currentId]\<close>, and its
  position \<open>NodeView._pos\<close>, which reads a field of the registry entry.
\<close>

definition ref_id :: "nodeview \<Rightarrow> jsid \<Rightarrow> jsid" where
  "ref_id s toggleId = (if truthy toggleId then toggleId else currentId s)"

definition ref_pos :: "nodeview \<Rightarrow> jsid \<Rightarrow> error + pos" where
  "ref_pos s toggleId =
     (case registry_get s (key_of (ref_id s toggleId)) of
        None \<Rightarrow> Inl TypeError
      | Some a \<Rightarrow> Inr (NodeView_pos (store s a)))"

text \<open>\<open>this.tree.nodes(prunedRoot)\<close> writes the coordinates of every node of the tree.\<close>

definition place :: "(addr \<Rightarrow> pos) \<Rightarrow> addr \<Rightarrow> store \<Rightarrow> store" where
  "place lay a st = st(a := (st a)\<lparr>node_x := Some (fst (lay a)), node_y := Some (snd (lay a))\<rparr>)"

definition layout_nodes :: "nodeview \<Rightarrow> ptree \<Rightarrow> store" where
  "layout_nodes s t = fold (place (tree_layout s (nodeSize s) t)) (tree_nodes t) (store s)"

text \<open>
  The key function of the node join, \<open>(d) => d.id || (d.id = this.nextId++)\<close>, on the
  store and the counter; the key it returns is used as a property key.
\<close>

definition node_key :: "addr \<Rightarrow> store \<times> nat \<Rightarrow> string \<times> (store \<times> nat)" where
  "node_key d sn =
     (if truthy (node_id (fst sn d)) then (key_of (node_id (fst sn d)), sn)
      else (key_of (IdNum (int (snd sn))),
            ((fst sn)(d := (fst sn d)\<lparr>node_id := IdNum (int (snd sn))\<rparr>), Suc (snd sn))))"

fun node_keys :: "addr list \<Rightarrow> store \<times> nat \<Rightarrow> (string \<times> addr) list \<times> (store \<times> nat)" where
  "node_keys [] sn = ([], sn)"
| "node_keys (d # ds) sn =
     (case node_key d sn of (k, sn1) \<Rightarrow>
        (case node_keys ds sn1 of (kds, sn2) \<Rightarrow> ((k, d) # kds, sn2)))"

text \<open>The key function of the link join, \<open>(d) => d.target.id\<close>.\<close>

definition link_keys :: "store \<Rightarrow> (addr \<times> addr) list \<Rightarrow> (string \<times> (addr \<times> addr)) list" where
  "link_keys st ls = map (\<lambda>l. (key_of (node_id (st (snd l))), l)) ls"

text \<open>
  Modelled from the spec: the keyed data join of d3 (\<open>selection.data(data, key)\<close> with its
  \<open>enter()\<close> and \<open>exit()\<close> selections) is not part of the sources. The spec has the
  rendered elements reconciled against the new data by key: an element whose key is among
  the new data is updated in place and bound to that datum, a datum whose key has no
  element enters, an element whose key is not among the new data exits. Of several data
  with one key the first is used, and of several elements with one key the first; the
  others exit. The join is made with all elements in the container, those that are
  leaving too; a leaving element that is updated gets a new transition in place of the
  one that would remove it, and is shown again.
\<close>

fun first_keys :: "string list \<Rightarrow> (string \<times> 'a) list \<Rightarrow> (string \<times> 'a) list" where
  "first_keys seen [] = []"
| "first_keys seen (kd # kds) =
     (if fst kd \<in> set seen then first_keys seen kds
      else kd # first_keys (fst kd # seen) kds)"

definition join_update :: "(string \<times> 'a) list \<Rightarrow> (string \<times> 'a) list \<Rightarrow> 'a list" where
  "join_update els dat = map snd (filter (\<lambda>kd. fst kd \<in> fst ` set els) (first_keys [] dat))"

definition join_enter :: "(string \<times> 'a) list \<Rightarrow> (string \<times> 'a) list \<Rightarrow> 'a list" where
  "join_enter els dat = map snd (filter (\<lambda>kd. fst kd \<notin> fst ` set els) (first_keys [] dat))"

text \<open>
  The elements of the container after the join, in document order, without the entering
  ones: the first element of a key that is among the new data is bound to the first datum
  of that key, every other element leaves with the datum it has.
\<close>

fun join_elements :: "string list \<Rightarrow> (string \<times> 'a) list \<Rightarrow> (string \<times> 'a) list \<Rightarrow> ('a \<times> phase) list" where
  "join_elements seen [] dat = []"
| "join_elements seen (ke # kes) dat =
     (case (if fst ke \<in> set seen then None else map_of dat (fst ke)) of
        None \<Rightarrow> (snd ke, Leaving)
      | Some d \<Rightarrow> (d, Shown)) # join_elements (fst ke # seen) kes dat"

definition is_leaving :: "'a \<times> phase \<Rightarrow> bool" where
  "is_leaving e = (snd e = Leaving)"

definition join_exit :: "(string \<times> 'a) list \<Rightarrow> (string \<times> 'a) list \<Rightarrow> 'a list" where
  "join_exit els dat = map fst (filter is_leaving (join_elements [] els dat))"

definition joined :: "(string \<times> 'a) list \<Rightarrow> (string \<times> 'a) list \<Rightarrow> ('a \<times> phase) list" where
  "joined els dat = join_elements [] els dat @ map (\<lambda>d. (d, Shown)) (join_enter els dat)"

text \<open>
  The node half of \<open>_update\<close>: the join, then \<open>_updateNodes(nodes)\<close>,
  \<open>_addNodes(nodes.enter(), prevPos)\<close> and \<open>_removeNodes(nodes.exit(), currPos)\<close>. The key
  function runs on the data of the elements in the container, then on the new data.
  Entering elements are appended to the container. \<open>_addNodes\<close> evaluates
  \<open>this._translate(pos)\<close> once for each entering element, before it calls the add-nodes
  handler; the attribute functions of the transitions are run later, by the timer of d3,
  and not during the call.
\<close>

definition render_nodes :: "nodeview \<Rightarrow> addr list \<Rightarrow> pos \<Rightarrow> pos \<Rightarrow> error + nodeview" where
  "render_nodes s dat prevPos currPos =
     (case node_keys (map fst (g_nodes s)) (store s, nextId s) of (els, sn1) \<Rightarrow>
      (case node_keys dat sn1 of (kds, sn2) \<Rightarrow>
       (let upd = join_update els kds; ent = join_enter els kds; ext = join_exit els kds;
            s1 = s\<lparr>store := fst sn2, nextId := snd sn2\<rparr>
        in case handlers s1 ''update-nodes'' of None \<Rightarrow> Inl TypeError
           | Some h1 \<Rightarrow>
             (case (if ent = [] then Inr prevPos else translate s1 prevPos) of Inl e \<Rightarrow> Inl e
              | Inr p \<Rightarrow>
                (case handlers s1 ''add-nodes'' of None \<Rightarrow> Inl TypeError
                 | Some h2 \<Rightarrow>
                     Inr (s1\<lparr>g_nodes := joined els kds,
                             effects := effects s1 @
                               [CallUpdateNodes upd, EnterNodes ent prevPos, CallAddNodes ent,
                                CallUpdateNodes ent, ExitNodes ext currPos]\<rparr>))))))"

text \<open>
  The link half of \<open>_update\<close>. \<open>_addLinks\<close> evaluates \<open>this.diagonal\<close> at the reference
  position once for each entering link, and inserts the entering links after the links
  in the container.
\<close>

definition render_links :: "nodeview \<Rightarrow> (addr \<times> addr) list \<Rightarrow> pos \<Rightarrow> pos \<Rightarrow> error + nodeview" where
  "render_links s linkData prevPos currPos =
     (let els = link_keys (store s) (map fst (path_links s)); kds = link_keys (store s) linkData;
          upd = join_update els kds; ent = join_enter els kds; ext = join_exit els kds
      in case (if ent = [] then Inr prevPos else translate s prevPos) of Inl e \<Rightarrow> Inl e
         | Inr p \<Rightarrow>
             Inr (s\<lparr>path_links := joined els kds,
                    effects := effects s @ [EnterLinks ent prevPos, ExitLinks ext currPos]\<rparr>))"

text \<open>
  The end of the transitions that are running: the leaving elements are removed. This is
  not a call of the controller; the timer of d3 does it, \<open>duration\<close> milliseconds after
  the last render pass.
\<close>

definition transitions_end :: "nodeview \<Rightarrow> nodeview" where
  "transitions_end s =
     s\<lparr>g_nodes := filter (\<lambda>e. \<not> is_leaving e) (g_nodes s),
       path_links := filter (\<lambda>e. \<not> is_leaving e) (path_links s)\<rparr>"

text \<open>\<open>_update(rootId, toggleId)\<close>; an omitted \<open>toggleId\<close> is \<open>IdUndefined\<close>.\<close>

definition update :: "nodeview \<Rightarrow> jsid \<Rightarrow> jsid \<Rightarrow> error + nodeview" where
  "update s rootId toggleId =
     (case ref_pos s toggleId of Inl e \<Rightarrow> Inl e
      | Inr prevPos \<Rightarrow>
        (let newRoot = registry_get s (key_of rootId);
             s1 = s\<lparr>currentId := rootId\<rparr>
         in case handlers s1 ''prune-nodes'' of None \<Rightarrow> Inl TypeError
            | Some prune \<Rightarrow>
              (let prunedRoot = prune (store s1) newRoot;
                   s2 = s1\<lparr>effects := effects s1 @ [CallPruneNodes newRoot]\<rparr>;
                   s3 = (case prunedRoot of None \<Rightarrow> s2
                         | Some t \<Rightarrow> s2\<lparr>store := layout_nodes s2 t,
                                        effects := effects s2 @ [CallTreeNodes t]\<rparr>);
                   dat = (case prunedRoot of None \<Rightarrow> [] | Some t \<Rightarrow> tree_nodes t);
                   linkData = (case prunedRoot of None \<Rightarrow> [] | Some t \<Rightarrow> tree_links t)
               in case ref_pos s3 toggleId of Inl e \<Rightarrow> Inl e
                  | Inr currPos \<Rightarrow>
                    (case render_nodes s3 dat prevPos currPos of Inl e \<Rightarrow> Inl e
                     | Inr s4 \<Rightarrow> render_links s4 linkData prevPos currPos))))"

section \<open>The public operations\<close>

text \<open>\<open>setRoot(root)\<close>; \<open>None\<close> is an undefined root.\<close>

definition setRoot :: "nodeview \<Rightarrow> addr option \<Rightarrow> error + nodeview" where
  "setRoot s root =
     (case root of None \<Rightarrow> Inr s
      | Some r \<Rightarrow>
          update (s\<lparr>nodeData := (nodeData s)(key_of (node_id (store s r)) \<mapsto> r),
                    currentId := node_id (store s r)\<rparr>)
                 (node_id (store s r)) IdUndefined)"

text \<open>\<open>!v\<close> on the \<open>isOpened\<close> field.\<close>

definition js_not :: "bool option \<Rightarrow> bool option" where
  "js_not v = Some (v \<noteq> Some True)"

text \<open>
  \<open>toggle(id)\<close> up to the point where it returns. In the fetch branch it has called the
  get-children handler and the promise is pending; the callback given to \<open>then\<close> is
  \<open>toggle_then\<close>.
\<close>

definition toggle :: "nodeview \<Rightarrow> jsid \<Rightarrow> error + nodeview" where
  "toggle s ident =
     (case registry_get s (key_of ident) of None \<Rightarrow> Inl TypeError
      | Some a \<Rightarrow>
          if node_children (store s a) = None then
            (case handlers s ''get-children'' of None \<Rightarrow> Inl TypeError
             | Some h \<Rightarrow> Inr (s\<lparr>effects := effects s @ [CallGetChildren ident]\<rparr>))
          else
            update (s\<lparr>store := (store s)(a := (store s a)\<lparr>isOpened := js_not (isOpened (store s a))\<rparr>)\<rparr>)
                   (currentId s) ident)"

text \<open>
  The body of the \<open>then\<close> callback before it calls \<open>toggle\<close> again:
  \<open>this.nodeData[id]._children = children\<close>, then every child is stored under its id
  (\<open>register\<close> is the body of the \<open>forEach\<close>).
\<close>

definition register :: "addr \<Rightarrow> nodeview \<Rightarrow> nodeview" where
  "register child s = s\<lparr>nodeData := (nodeData s)(key_of (node_id (store s child)) \<mapsto> child)\<rparr>"

definition store_children :: "nodeview \<Rightarrow> addr \<Rightarrow> addr list \<Rightarrow> nodeview" where
  "store_children s a children =
     fold register children
       (s\<lparr>store := (store s)(a := (store s a)\<lparr>node_children := Some children\<rparr>)\<rparr>)"

text \<open>
  The \<open>then\<close> callback of \<open>toggle(id)\<close>, run in the state \<open>s\<close> in which the promise
  resolves, with the value it resolves to (\<open>None\<close> is \<open>undefined\<close>).
\<close>

definition toggle_then :: "nodeview \<Rightarrow> jsid \<Rightarrow> addr list option \<Rightarrow> error + nodeview" where
  "toggle_then s ident children =
     (case children of None \<Rightarrow> Inr s
      | Some cs \<Rightarrow>
          (case registry_get s (key_of ident) of None \<Rightarrow> Inl TypeError
           | Some a \<Rightarrow> toggle (store_children s a cs) ident))"

text \<open>\<open>redraw()\<close>.\<close>

definition redraw :: "nodeview \<Rightarrow> error + nodeview" where
  "redraw s = (if truthy (currentId s) then update s (currentId s) IdUndefined else Inr s)"

text \<open>\<open>resize(nodeWidth, nodeHeight)\<close>.\<close>

definition resize :: "nodeview \<Rightarrow> int \<Rightarrow> int \<Rightarrow> error + nodeview" where
  "resize s w h = update (s\<lparr>nodeSize := (w, h)\<rparr>) (currentId s) IdUndefined"

section \<open>Observations and example inputs\<close>

text \<open>How often the get-children handler has been called.\<close>

fun is_fetch :: "effect \<Rightarrow> bool" where
  "is_fetch (CallGetChildren i) = True"
| "is_fetch e = False"

definition fetch_count :: "nodeview \<Rightarrow> nat" where
  "fetch_count s = length (filter is_fetch (effects s))"

text \<open>The state a call returns, for a call that did not raise.\<close>

definition returned :: "error + nodeview \<Rightarrow> nodeview" where
  "returned r = projr r"

definition mk_node :: "jsid \<Rightarrow> node" where
  "mk_node i = \<lparr>node_id = i, node_x = None, node_y = None, isOpened = None, node_children = None\<rparr>"

text \<open>
  A store with the objects \<open>{id: "A"}\<close>, \<open>{id: "B"}\<close>, \<open>{id: "C"}\<close>, \<open>{id: 0}\<close>, \<open>{id: ""}\<close>,
  \<open>{id: "R", isOpened: true, _children: [{id: "B"}]}\<close> and \<open>{id: 0, _children: []}\<close> at
  the addresses 0 to 6, a second object \<open>{id: "A"}\<close> at 7, and the object
  \<open>{id: 0, isOpened: true, _children: [{id: 1}]}\<close> with its child at 8 and 9. The objects
  at 10 and 11 have none of the fields of a node: they are the functions
  \<open>Object.prototype.toString\<close> and \<open>Object\<close>, two of the values that every object
  created as \<open>{}\<close> inherits.
\<close>

definition ex_store :: store where
  "ex_store = (\<lambda>a. mk_node IdUndefined)
     (0 := mk_node (IdStr ''A''), 1 := mk_node (IdStr ''B''), 2 := mk_node (IdStr ''C''),
      3 := mk_node (IdNum 0), 4 := mk_node (IdStr []),
      5 := (mk_node (IdStr ''R''))\<lparr>isOpened := Some True, node_children := Some [1]\<rparr>,
      6 := (mk_node (IdNum 0))\<lparr>node_children := Some []\<rparr>,
      7 := mk_node (IdStr ''A''),
      8 := (mk_node (IdNum 0))\<lparr>isOpened := Some True, node_children := Some [9]\<rparr>,
      9 := mk_node (IdNum 1))"

definition ex_prototype :: "string \<rightharpoonup> addr" where
  "ex_prototype = [''toString'' \<mapsto> 10, ''constructor'' \<mapsto> 11]"

text \<open>A prune-nodes handler: the root, with its fetched children below it when it is opened.\<close>

definition prune_open :: callback where
  "prune_open st r =
     (case r of None \<Rightarrow> None
      | Some a \<Rightarrow>
          Some (PNode a (if isOpened (st a) = Some True
                         then map (\<lambda>c. PNode c []) (case node_children (st a) of None \<Rightarrow> [] | Some cs \<Rightarrow> cs)
                         else [])))"

text \<open>A prune-nodes handler that hides everything, and a handler whose result is not used.\<close>

definition prune_all :: callback where
  "prune_all st r = None"

definition no_result :: callback where
  "no_result st r = None"

definition ex_layout :: "int \<times> int \<Rightarrow> ptree \<Rightarrow> addr \<Rightarrow> pos" where
  "ex_layout sz t a = (int a * fst sz, snd sz)"

definition ex_config :: "string \<Rightarrow> view_config" where
  "ex_config k = \<lparr>selector = ''#nodeview'', orientKey = k, nodeWidth = 50, nodeHeight = 50, duration = 200\<rparr>"

definition ex_handlers :: "nodeview \<Rightarrow> callback \<Rightarrow> nodeview" where
  "ex_handlers s prune =
     on (on (on (on s ''get-children'' no_result) ''prune-nodes'' prune) ''add-nodes'' no_result)
        ''update-nodes'' no_result"

definition ex_view :: nodeview where
  "ex_view =
     ex_handlers (constructor ex_prototype ex_layout ex_store (ex_config ''top-to-bottom'')) prune_open"

text \<open>
  States of the example view: after \<open>setRoot\<close> of the object \<open>{id: "A"}\<close>; after
  \<open>toggle("A")\<close> there, with the fetch pending; after the fetch has resolved with the
  objects \<open>{id: "B"}\<close> and \<open>{id: "C"}\<close>; and after it has resolved instead with the object
  \<open>{id: 0, _children: []}\<close>.
\<close>

definition ex_rooted :: nodeview where
  "ex_rooted = returned (setRoot ex_view (Some 0))"

definition ex_pending :: nodeview where
  "ex_pending = returned (toggle ex_rooted (IdStr ''A''))"

definition ex_expanded :: nodeview where
  "ex_expanded = returned (toggle_then ex_pending (IdStr ''A'') (Some [1, 2]))"

definition ex_zero :: nodeview where
  "ex_zero = returned (toggle_then ex_pending (IdStr ''A'') (Some [6]))"

text \<open>The example view configured with an orientation that is neither of the two known ones.\<close>

definition ex_sideways :: "callback \<Rightarrow> nodeview" where
  "ex_sideways prune =
     ex_handlers (constructor ex_prototype ex_layout ex_store (ex_config ''sideways'')) prune"

text \<open>The example view after \<open>setRoot\<close> of the object \<open>{id: 0}\<close>.\<close>

definition ex_rooted0 :: nodeview where
  "ex_rooted0 = returned (setRoot ex_view (Some 3))"

text \<open>
  The example view after \<open>setRoot\<close> of the object \<open>{id: 0, isOpened: true, _children: [{id: 1}]}\<close>,
  and after a \<open>resize\<close> that follows.
\<close>

definition ex_numbered :: nodeview where
  "ex_numbered = returned (setRoot ex_view (Some 8))"

definition ex_resized :: nodeview where
  "ex_resized = returned (resize ex_numbered 80 80)"

text \<open>The expanded example view after the host has registered a handler that hides everything.\<close>

definition ex_hidden :: nodeview where
  "ex_hidden = on ex_expanded ''prune-nodes'' prune_all"

section \<open>Registry lookups\<close>

lemma registry_get_own: "nodeData s k = Some a \<Longrightarrow> registry_get s k = Some a"
  by (simp add: registry_get_def)

lemma registry_get_frame:
  "nodeData s' = nodeData s \<Longrightarrow> inherited s' = inherited s \<Longrightarrow> registry_get s' k = registry_get s k"
  by (simp add: registry_get_def split: option.splits)

lemma registry_get_store [simp]: "registry_get (s\<lparr>store := st\<rparr>) k = registry_get s k"
  by (simp add: registry_get_def split: option.splits)

lemma registry_get_effects [simp]: "registry_get (s\<lparr>effects := es\<rparr>) k = registry_get s k"
  by (simp add: registry_get_def split: option.splits)

lemma registry_get_currentId [simp]: "registry_get (s\<lparr>currentId := i\<rparr>) k = registry_get s k"
  by (simp add: registry_get_def split: option.splits)

lemma registry_get_nodeSize [simp]: "registry_get (s\<lparr>nodeSize := z\<rparr>) k = registry_get s k"
  by (simp add: registry_get_def split: option.splits)

section \<open>What a render pass leaves alone\<close>

lemma node_key_fields:
  assumes "node_key d sn = (k, sn')"
  shows "isOpened (fst sn' a) = isOpened (fst sn a)"
    and "node_children (fst sn' a) = node_children (fst sn a)"
    and "node_x (fst sn' a) = node_x (fst sn a)"
    and "node_y (fst sn' a) = node_y (fst sn a)"
    and "truthy (node_id (fst sn a)) \<Longrightarrow> node_id (fst sn' a) = node_id (fst sn a)"
  using assms by (auto simp: node_key_def split: if_splits)

lemma node_keys_fields:
  assumes "node_keys ds sn = (kds, sn')"
  shows "isOpened (fst sn' a) = isOpened (fst sn a)
       \<and> node_children (fst sn' a) = node_children (fst sn a)
       \<and> node_x (fst sn' a) = node_x (fst sn a)
       \<and> node_y (fst sn' a) = node_y (fst sn a)
       \<and> (truthy (node_id (fst sn a)) \<longrightarrow> node_id (fst sn' a) = node_id (fst sn a))"
  using assms
proof (induction ds arbitrary: sn kds sn')
  case Nil
  then show ?case by simp
next
  case (Cons d ds)
  obtain k sn1 where k: "node_key d sn = (k, sn1)" by (cases "node_key d sn")
  obtain kds1 sn2 where r: "node_keys ds sn1 = (kds1, sn2)" by (cases "node_keys ds sn1")
  from Cons.prems k r have e: "sn' = sn2" by simp
  from Cons.IH [OF r] node_key_fields [OF k, of a] e show ?case by simp
qed

lemma fold_place_fields:
  "isOpened (fold (place lay) ds st a) = isOpened (st a)
   \<and> node_children (fold (place lay) ds st a) = node_children (st a)
   \<and> node_id (fold (place lay) ds st a) = node_id (st a)"
  by (induction ds arbitrary: st) (simp_all add: place_def)

lemma layout_nodes_fields:
  "isOpened (layout_nodes s t a) = isOpened (store s a)"
  "node_children (layout_nodes s t a) = node_children (store s a)"
  "node_id (layout_nodes s t a) = node_id (store s a)"
  by (simp_all add: layout_nodes_def fold_place_fields)

lemma render_nodes_frame:
  assumes "render_nodes s dat p c = Inr s'"
  shows "nodeData s' = nodeData s \<and> currentId s' = currentId s \<and> handlers s' = handlers s
       \<and> orientation s' = orientation s \<and> path_links s' = path_links s
       \<and> config s' = config s \<and> zoom s' = zoom s \<and> nodeSize s' = nodeSize s
       \<and> tree_layout s' = tree_layout s \<and> fetch_count s' = fetch_count s
       \<and> inherited s' = inherited s"
  using assms
  by (auto simp: render_nodes_def Let_def fetch_count_def
      split: prod.splits option.splits sum.splits if_splits)

lemma render_nodes_store:
  assumes "render_nodes s dat p c = Inr s'"
  shows "isOpened (store s' a) = isOpened (store s a)
       \<and> node_children (store s' a) = node_children (store s a)
       \<and> node_x (store s' a) = node_x (store s a)
       \<and> node_y (store s' a) = node_y (store s a)
       \<and> (truthy (node_id (store s a)) \<longrightarrow> node_id (store s' a) = node_id (store s a))"
proof -
  obtain els sn1 where e: "node_keys (map fst (g_nodes s)) (store s, nextId s) = (els, sn1)"
    by (cases "node_keys (map fst (g_nodes s)) (store s, nextId s)")
  obtain kds sn2 where k: "node_keys dat sn1 = (kds, sn2)" by (cases "node_keys dat sn1")
  from assms e k have st: "store s' = fst sn2"
    by (auto simp: render_nodes_def Let_def split: option.splits sum.splits)
  from node_keys_fields [OF e, of a] node_keys_fields [OF k, of a] st show ?thesis by simp
qed

lemma render_links_frame:
  assumes "render_links s ls p c = Inr s'"
  shows "nodeData s' = nodeData s \<and> currentId s' = currentId s \<and> handlers s' = handlers s
       \<and> orientation s' = orientation s \<and> g_nodes s' = g_nodes s \<and> store s' = store s
       \<and> nextId s' = nextId s
       \<and> config s' = config s \<and> zoom s' = zoom s \<and> nodeSize s' = nodeSize s
       \<and> tree_layout s' = tree_layout s \<and> fetch_count s' = fetch_count s
       \<and> inherited s' = inherited s"
  using assms
  by (auto simp: render_links_def Let_def fetch_count_def split: sum.splits)

lemma update_frame:
  assumes "update s r t = Inr s'"
  shows "nodeData s' = nodeData s \<and> currentId s' = r \<and> handlers s' = handlers s
       \<and> orientation s' = orientation s
       \<and> config s' = config s \<and> zoom s' = zoom s \<and> nodeSize s' = nodeSize s
       \<and> tree_layout s' = tree_layout s \<and> fetch_count s' = fetch_count s
       \<and> inherited s' = inherited s"
  using assms
  by (auto simp: update_def Let_def fetch_count_def split: option.splits sum.splits
      dest!: render_nodes_frame render_links_frame)

lemma update_store:
  assumes "update s r t = Inr s'"
  shows "isOpened (store s' a) = isOpened (store s a)
       \<and> node_children (store s' a) = node_children (store s a)
       \<and> (truthy (node_id (store s a)) \<longrightarrow> node_id (store s' a) = node_id (store s a))"
  using assms
  by (auto simp: update_def Let_def layout_nodes_fields split: option.splits sum.splits
      dest!: render_nodes_store [where a = a] render_links_frame)

lemma render_nodes_effects:
  assumes "render_nodes s dat p c = Inr s'"
  shows "\<exists>upd ent ext. effects s' = effects s @
           [CallUpdateNodes upd, EnterNodes ent p, CallAddNodes ent, CallUpdateNodes ent, ExitNodes ext c]"
  using assms
  by (auto simp: render_nodes_def Let_def split: prod.splits option.splits sum.splits)

lemma render_links_effects:
  assumes "render_links s ls p c = Inr s'"
  shows "\<exists>ent ext. effects s' = effects s @ [EnterLinks ent p, ExitLinks ext c]"
  using assms
  by (auto simp: render_links_def Let_def split: sum.splits)

lemma update_reference:
  assumes "update s r t = Inr s'"
  shows "\<exists>p es1 ent es2. ref_pos s t = Inr p
           \<and> effects s' = effects s @ CallPruneNodes (registry_get s (key_of r)) # es1 @ EnterNodes ent p # es2"
proof -
  from assms obtain p where p: "ref_pos s t = Inr p"
    by (cases "ref_pos s t") (simp_all add: update_def)
  from assms p obtain prune where h: "handlers s ''prune-nodes'' = Some prune"
    by (cases "handlers s ''prune-nodes''") (simp_all add: update_def)
  let ?root = "registry_get s (key_of r)"
  let ?s2 = "s\<lparr>currentId := r, effects := effects s @ [CallPruneNodes ?root]\<rparr>"
  let ?s3 = "case prune (store s) ?root of None \<Rightarrow> ?s2
             | Some t \<Rightarrow> ?s2\<lparr>store := layout_nodes ?s2 t, effects := effects ?s2 @ [CallTreeNodes t]\<rparr>"
  let ?dat = "case prune (store s) ?root of None \<Rightarrow> [] | Some t \<Rightarrow> tree_nodes t"
  let ?ls = "case prune (store s) ?root of None \<Rightarrow> [] | Some t \<Rightarrow> tree_links t"
  from assms p h obtain c where c: "ref_pos ?s3 t = Inr c"
    by (cases "ref_pos ?s3 t") (simp_all add: update_def Let_def)
  from assms p h c obtain s4 where n: "render_nodes ?s3 ?dat p c = Inr s4"
    by (cases "render_nodes ?s3 ?dat p c") (simp_all add: update_def Let_def)
  from assms p h c n have l: "render_links s4 ?ls p c = Inr s'"
    by (simp add: update_def Let_def)
  from render_nodes_effects [OF n] obtain upd ent ext where
    e4: "effects s4 = effects ?s3 @
           [CallUpdateNodes upd, EnterNodes ent p, CallAddNodes ent, CallUpdateNodes ent, ExitNodes ext c]"
    by blast
  from render_links_effects [OF l] obtain lent lext where
    e5: "effects s' = effects s4 @ [EnterLinks lent p, ExitLinks lext c]"
    by blast
  have "\<exists>es. effects ?s3 = effects s @ CallPruneNodes ?root # es"
    by (cases "prune (store s) ?root") simp_all
  then obtain es where e3: "effects ?s3 = effects s @ CallPruneNodes ?root # es" by blast
  have "effects s' = effects s @ CallPruneNodes ?root # (es @ [CallUpdateNodes upd]) @
          EnterNodes ent p # [CallAddNodes ent, CallUpdateNodes ent, ExitNodes ext c,
                              EnterLinks lent p, ExitLinks lext c]"
    unfolding e5 e4 e3 by simp
  with p show ?thesis by blast
qed

section \<open>What storing the fetched children changes\<close>

lemma fold_register_frame:
  "store (fold register cs s) = store s \<and> currentId (fold register cs s) = currentId s
   \<and> handlers (fold register cs s) = handlers s \<and> effects (fold register cs s) = effects s
   \<and> orientation (fold register cs s) = orientation s
   \<and> inherited (fold register cs s) = inherited s"
  by (induction cs arbitrary: s) (simp_all add: register_def)

lemma fold_register_other:
  "k \<notin> (\<lambda>c. key_of (node_id (store s c))) ` set cs \<Longrightarrow> nodeData (fold register cs s) k = nodeData s k"
proof (induction cs arbitrary: s)
  case Nil
  then show ?case by simp
next
  case (Cons c cs)
  have "store (register c s) = store s" by (simp add: register_def)
  with Cons.prems Cons.IH [of "register c s"] show ?case
    by (simp add: register_def)
qed

lemma fold_register_dom:
  "dom (nodeData (fold register cs s)) = dom (nodeData s) \<union> (\<lambda>c. key_of (node_id (store s c))) ` set cs"
proof (induction cs arbitrary: s)
  case Nil
  then show ?case by simp
next
  case (Cons c cs)
  have "store (register c s) = store s" by (simp add: register_def)
  with Cons.IH [of "register c s"] show ?case
    by (auto simp: register_def)
qed

lemma fold_register_stored:
  assumes "distinct (map (\<lambda>c. key_of (node_id (store s c))) cs)" and "c \<in> set cs"
  shows "nodeData (fold register cs s) (key_of (node_id (store s c))) = Some c"
  using assms
proof (induction cs arbitrary: s)
  case Nil
  then show ?case by simp
next
  case (Cons d ds)
  have st: "store (register d s) = store s" by (simp add: register_def)
  have step: "fold register (d # ds) s = fold register ds (register d s)" by simp
  show ?case
  proof (cases "c = d")
    case True
    from Cons.prems(1) have "key_of (node_id (store s d)) \<notin> (\<lambda>c. key_of (node_id (store (register d s) c))) ` set ds"
      by (simp add: st)
    from fold_register_other [OF this]
    have "nodeData (fold register ds (register d s)) (key_of (node_id (store s d))) = Some d"
      by (simp add: register_def)
    with True step show ?thesis by simp
  next
    case False
    with Cons.prems have "c \<in> set ds" and "distinct (map (\<lambda>c. key_of (node_id (store (register d s) c))) ds)"
      by (simp_all add: st)
    from Cons.IH [OF this(2) this(1)] step show ?thesis by (simp add: st)
  qed
qed

lemma fold_register_bound:
  "k \<in> (\<lambda>c. key_of (node_id (store s c))) ` set cs \<Longrightarrow>
     \<exists>c \<in> set cs. nodeData (fold register cs s) k = Some c \<and> key_of (node_id (store s c)) = k"
proof (induction cs arbitrary: s)
  case Nil
  then show ?case by simp
next
  case (Cons d ds)
  have st: "store (register d s) = store s" by (simp add: register_def)
  have step: "fold register (d # ds) s = fold register ds (register d s)" by simp
  show ?case
  proof (cases "k \<in> (\<lambda>c. key_of (node_id (store s c))) ` set ds")
    case True
    then have "k \<in> (\<lambda>c. key_of (node_id (store (register d s) c))) ` set ds"
      by (simp add: st)
    from Cons.IH [OF this] show ?thesis
      unfolding step st by auto
  next
    case False
    with Cons.prems have kd: "key_of (node_id (store s d)) = k" by auto
    from False have "k \<notin> (\<lambda>c. key_of (node_id (store (register d s) c))) ` set ds"
      by (simp add: st)
    from fold_register_other [OF this] kd
    have "nodeData (fold register ds (register d s)) k = Some d"
      by (simp add: register_def)
    with kd show ?thesis unfolding step by auto
  qed
qed

lemma children_upd_key:
  "(\<lambda>c. key_of (node_id (store (s\<lparr>store := (store s)(a := (store s a)\<lparr>node_children := v\<rparr>)\<rparr>) c)))
     = (\<lambda>c. key_of (node_id (store s c)))"
  by (rule ext) simp

lemma store_children_store:
  "store (store_children s a cs) = (store s)(a := (store s a)\<lparr>node_children := Some cs\<rparr>)"
  by (simp add: store_children_def fold_register_frame)

lemma store_children_frame:
  "currentId (store_children s a cs) = currentId s \<and> handlers (store_children s a cs) = handlers s
   \<and> effects (store_children s a cs) = effects s \<and> orientation (store_children s a cs) = orientation s
   \<and> inherited (store_children s a cs) = inherited s"
  by (simp add: store_children_def fold_register_frame)

lemma store_children_dom:
  "dom (nodeData (store_children s a cs)) = dom (nodeData s) \<union> (\<lambda>c. key_of (node_id (store s c))) ` set cs"
  unfolding store_children_def fold_register_dom children_upd_key by simp

lemma store_children_other:
  assumes "k \<notin> (\<lambda>c. key_of (node_id (store s c))) ` set cs"
  shows "nodeData (store_children s a cs) k = nodeData s k"
proof -
  let ?s1 = "s\<lparr>store := (store s)(a := (store s a)\<lparr>node_children := Some cs\<rparr>)\<rparr>"
  from assms have "k \<notin> (\<lambda>c. key_of (node_id (store ?s1 c))) ` set cs"
    unfolding children_upd_key .
  from fold_register_other [OF this] show ?thesis
    by (simp add: store_children_def)
qed

lemma store_children_stored:
  assumes "distinct (map (\<lambda>c. key_of (node_id (store s c))) cs)" and "c \<in> set cs"
  shows "nodeData (store_children s a cs) (key_of (node_id (store s c))) = Some c"
proof -
  let ?s1 = "s\<lparr>store := (store s)(a := (store s a)\<lparr>node_children := Some cs\<rparr>)\<rparr>"
  have e: "key_of (node_id (store ?s1 c)) = key_of (node_id (store s c))"
    by simp
  from assms(1) have "distinct (map (\<lambda>c. key_of (node_id (store ?s1 c))) cs)"
    unfolding children_upd_key .
  from fold_register_stored [OF this assms(2)]
  have "nodeData (fold register cs ?s1) (key_of (node_id (store ?s1 c))) = Some c" .
  then show ?thesis
    unfolding store_children_def e .
qed

lemma store_children_bound:
  assumes "k \<in> (\<lambda>c. key_of (node_id (store s c))) ` set cs"
  shows "\<exists>c \<in> set cs. nodeData (store_children s a cs) k = Some c \<and> key_of (node_id (store s c)) = k"
proof -
  let ?s1 = "s\<lparr>store := (store s)(a := (store s a)\<lparr>node_children := Some cs\<rparr>)\<rparr>"
  have e: "key_of (node_id (store ?s1 c)) = key_of (node_id (store s c))" for c
    by simp
  from assms have "k \<in> (\<lambda>c. key_of (node_id (store ?s1 c))) ` set cs"
    unfolding children_upd_key .
  from fold_register_bound [OF this]
  obtain c where "c \<in> set cs" and "nodeData (fold register cs ?s1) k = Some c"
    and "key_of (node_id (store ?s1 c)) = k"
    by blast
  then show ?thesis
    unfolding store_children_def e by blast
qed

section \<open>Nodes and links of a tree, and the join on distinct keys\<close>

lemma subtree_targets_mset:
  assumes "\<And>t. t \<in> set ts \<Longrightarrow> mset (tree_root t # map snd (tree_links t)) = mset (tree_nodes t)"
  shows "mset (map tree_root ts) + mset (concat (map (\<lambda>t. map snd (tree_links t)) ts))
           = mset (concat (map tree_nodes ts))"
  using assms
proof (induction ts)
  case Nil
  then show ?case by simp
next
  case (Cons t ts)
  from Cons.prems [of t] have h: "mset (tree_nodes t) = {#tree_root t#} + mset (map snd (tree_links t))"
    by simp
  from Cons.IH Cons.prems
  have r: "mset (map tree_root ts) + mset (concat (map (\<lambda>t. map snd (tree_links t)) ts))
             = mset (concat (map tree_nodes ts))"
    by simp
  show ?case
    by (simp add: h r [symmetric])
qed

lemma tree_targets_mset:
  "mset (tree_root t # map snd (tree_links t)) = mset (tree_nodes t)"
proof (induction t)
  case (PNode a ts)
  have m: "map snd (tree_links (PNode a ts))
             = map tree_root ts @ concat (map (\<lambda>t. map snd (tree_links t)) ts)"
    by (simp add: map_concat comp_def)
  from subtree_targets_mset [of ts] PNode.IH
  have "mset (map tree_root ts) + mset (concat (map (\<lambda>t. map snd (tree_links t)) ts))
           = mset (concat (map tree_nodes ts))"
    by blast
  then show ?case
    unfolding m by simp
qed

lemma tree_links_length: "length (tree_links t) = length (tree_nodes t) - 1"
proof -
  from tree_targets_mset [of t]
  have "length (tree_root t # map snd (tree_links t)) = length (tree_nodes t)"
    by (rule mset_eq_length)
  then show ?thesis by simp
qed

lemma tree_targets_subset: "snd ` set (tree_links t) \<subseteq> set (tree_nodes t)"
proof -
  from tree_targets_mset [of t]
  have "set (tree_root t # map snd (tree_links t)) = set (tree_nodes t)"
    by (rule mset_eq_setD)
  then show ?thesis by auto
qed

lemma tree_targets_distinct:
  assumes "distinct (map f (tree_nodes t))"
  shows "distinct (map f (map snd (tree_links t)))"
proof -
  have "mset (map f (tree_root t # map snd (tree_links t))) = image_mset f (mset (tree_root t # map snd (tree_links t)))"
    by (rule mset_map)
  also have "\<dots> = image_mset f (mset (tree_nodes t))"
    by (simp only: tree_targets_mset)
  also have "\<dots> = mset (map f (tree_nodes t))"
    by (rule mset_map [symmetric])
  finally have "mset (map f (tree_root t # map snd (tree_links t))) = mset (map f (tree_nodes t))" .
  from mset_eq_imp_distinct_iff [OF this] assms
  have "distinct (map f (tree_root t # map snd (tree_links t)))" by simp
  then show ?thesis by simp
qed

lemma first_keys_distinct:
  "distinct (map fst kds) \<Longrightarrow> fst ` set kds \<inter> set seen = {} \<Longrightarrow> first_keys seen kds = kds"
proof (induction kds arbitrary: seen)
  case Nil
  then show ?case by simp
next
  case (Cons kd kds)
  from Cons.prems have "fst ` set kds \<inter> set (fst kd # seen) = {}" by auto
  with Cons.IH [of "fst kd # seen"] Cons.prems show ?case by auto
qed

lemma join_elements_shown:
  "length (filter (\<lambda>e. \<not> is_leaving e) (join_elements seen es dat))
     = card ((fst ` set es - set seen) \<inter> fst ` set dat)"
proof (induction es arbitrary: seen)
  case Nil
  then show ?case by simp
next
  case (Cons ke es)
  let ?D = "fst ` set dat"
  let ?rest = "(fst ` set es - set (fst ke # seen)) \<inter> ?D"
  have fin: "finite ?rest" by simp
  have ih: "length (filter (\<lambda>e. \<not> is_leaving e) (join_elements (fst ke # seen) es dat)) = card ?rest"
    by (rule Cons.IH)
  show ?case
  proof (cases "fst ke \<in> set seen \<or> fst ke \<notin> ?D")
    case True
    then have "fst ke \<notin> set seen \<longrightarrow> fst ke \<notin> fst ` set dat" by blast
    then have l: "(if fst ke \<in> set seen then None else map_of dat (fst ke)) = None"
      by (simp add: map_of_eq_None_iff)
    from True have "(fst ` set (ke # es) - set seen) \<inter> ?D = ?rest" by (auto simp: image_iff)
    with ih l show ?thesis by (simp add: is_leaving_def)
  next
    case False
    then obtain d where "map_of dat (fst ke) = Some d"
      by (cases "map_of dat (fst ke)") (auto simp: map_of_eq_None_iff)
    with False have l: "(if fst ke \<in> set seen then None else map_of dat (fst ke)) = Some d"
      by simp
    from False have "(fst ` set (ke # es) - set seen) \<inter> ?D = insert (fst ke) ?rest" by (auto simp: image_iff)
    moreover have "fst ke \<notin> ?rest" by simp
    ultimately have "card ((fst ` set (ke # es) - set seen) \<inter> ?D) = Suc (card ?rest)"
      using fin by simp
    with ih l show ?thesis by (simp add: is_leaving_def)
  qed
qed

lemma join_enter_length:
  assumes "distinct (map fst dat)"
  shows "length (join_enter els dat) = card (fst ` set dat - fst ` set els)"
proof -
  from assms have f: "first_keys [] dat = dat" by (simp add: first_keys_distinct)
  have "filter (\<lambda>k. k \<notin> fst ` set els) (map fst dat)
          = map fst (filter (\<lambda>kd. fst kd \<notin> fst ` set els) dat)"
    by (simp add: filter_map comp_def)
  then have "length (join_enter els dat) = length (filter (\<lambda>k. k \<notin> fst ` set els) (map fst dat))"
    by (simp add: join_enter_def f)
  also have "\<dots> = card (set (filter (\<lambda>k. k \<notin> fst ` set els) (map fst dat)))"
    by (rule distinct_card [symmetric]) (rule distinct_filter [OF assms])
  also have "set (filter (\<lambda>k. k \<notin> fst ` set els) (map fst dat)) = fst ` set dat - fst ` set els"
    by auto
  finally show ?thesis .
qed

lemma entered_shown:
  "filter (\<lambda>e. \<not> is_leaving e) (map (\<lambda>d. (d, Shown)) ds) = map (\<lambda>d. (d, Shown)) ds"
  by (induction ds) (simp_all add: is_leaving_def)

lemma joined_shown:
  assumes "distinct (map fst dat)"
  shows "length (filter (\<lambda>e. \<not> is_leaving e) (joined els dat)) = length dat"
proof -
  let ?E = "fst ` set els" and ?D = "fst ` set dat"
  have "length (filter (\<lambda>e. \<not> is_leaving e) (joined els dat))
          = card (?E \<inter> ?D) + card (?D - ?E)"
    by (simp add: joined_def join_elements_shown join_enter_length [OF assms] entered_shown)
  also have "\<dots> = card ((?E \<inter> ?D) \<union> (?D - ?E))"
    by (rule card_Un_disjoint [symmetric]) auto
  also have "(?E \<inter> ?D) \<union> (?D - ?E) = ?D" by blast
  finally have c: "length (filter (\<lambda>e. \<not> is_leaving e) (joined els dat)) = card ?D" .
  have "card (set (map fst dat)) = length (map fst dat)"
    by (rule distinct_card [OF assms])
  then have "card ?D = length dat" by simp
  with c show ?thesis by simp
qed

lemma join_elements_no_data:
  "filter (\<lambda>e. \<not> is_leaving e) (join_elements seen es []) = []"
  by (induction es arbitrary: seen) (simp_all add: is_leaving_def)

lemma joined_no_data: "filter (\<lambda>e. \<not> is_leaving e) (joined els []) = []"
  by (simp add: joined_def join_elements_no_data join_enter_def)


lemma node_keys_truthy:
  "\<forall>d \<in> set ds. truthy (node_id (fst sn d)) \<Longrightarrow>
     node_keys ds sn = (map (\<lambda>d. (key_of (node_id (fst sn d)), d)) ds, sn)"
  by (induction ds) (simp_all add: node_key_def)

lemma render_nodes_count:
  assumes r: "render_nodes s dat p c = Inr s'"
    and tr: "\<forall>d \<in> set dat. truthy (node_id (store s d))"
    and di: "distinct (map (\<lambda>d. key_of (node_id (store s d))) dat)"
  shows "length (filter (\<lambda>e. \<not> is_leaving e) (g_nodes s')) = length dat
       \<and> (\<forall>d \<in> set dat. node_id (store s' d) = node_id (store s d))"
proof -
  obtain els sn1 where e: "node_keys (map fst (g_nodes s)) (store s, nextId s) = (els, sn1)"
    by (cases "node_keys (map fst (g_nodes s)) (store s, nextId s)")
  from node_keys_fields [OF e] tr
  have same: "\<forall>d \<in> set dat. node_id (fst sn1 d) = node_id (store s d)"
    by simp
  with tr have tr1: "\<forall>d \<in> set dat. truthy (node_id (fst sn1 d))" by simp
  let ?kds = "map (\<lambda>d. (key_of (node_id (fst sn1 d)), d)) dat"
  from node_keys_truthy [OF tr1] have k: "node_keys dat sn1 = (?kds, sn1)" .
  have "map fst ?kds = map (\<lambda>d. key_of (node_id (fst sn1 d))) dat"
    by (simp add: comp_def)
  also have "\<dots> = map (\<lambda>d. key_of (node_id (store s d))) dat"
    by (rule map_cong [OF refl]) (simp add: same)
  finally have eq: "map fst ?kds = map (\<lambda>d. key_of (node_id (store s d))) dat" .
  from di have dk: "distinct (map fst ?kds)" unfolding eq .
  from r e k have g: "g_nodes s' = joined els ?kds"
    and st: "store s' = fst sn1"
    by (auto simp: render_nodes_def Let_def split: option.splits sum.splits)
  from joined_shown [OF dk, of els] g same st show ?thesis by simp
qed

lemma render_links_count:
  assumes r: "render_links s ls p c = Inr s'"
    and di: "distinct (map (\<lambda>l. key_of (node_id (store s (snd l)))) ls)"
  shows "length (filter (\<lambda>e. \<not> is_leaving e) (path_links s')) = length ls"
proof -
  let ?kds = "link_keys (store s) ls"
  have "map fst ?kds = map (\<lambda>l. key_of (node_id (store s (snd l)))) ls"
    by (simp add: link_keys_def comp_def)
  with di have dk: "distinct (map fst ?kds)" by simp
  from r have g: "path_links s' = joined (link_keys (store s) (map fst (path_links s))) ?kds"
    by (auto simp: render_links_def Let_def split: sum.splits)
  from joined_shown [OF dk] g show ?thesis by (simp add: link_keys_def)
qed

lemma render_nodes_none:
  "render_nodes s [] p c = Inr s' \<Longrightarrow> filter (\<lambda>e. \<not> is_leaving e) (g_nodes s') = []"
  by (auto simp: render_nodes_def Let_def joined_no_data
      split: prod.splits option.splits sum.splits)

lemma render_links_none:
  "render_links s [] p c = Inr s' \<Longrightarrow> filter (\<lambda>e. \<not> is_leaving e) (path_links s') = []"
  by (auto simp: render_links_def Let_def joined_no_data link_keys_def split: sum.splits)

section \<open>Entering nodes need an orientation\<close>

lemma only_TypeError: "(r :: error + 'a) = Inl e \<Longrightarrow> r = Inl TypeError"
  by (cases e) simp

lemma node_keys_data:
  "node_keys ds sn = (kds, sn') \<Longrightarrow> map snd kds = ds"
proof (induction ds arbitrary: sn kds sn')
  case Nil
  then show ?case by simp
next
  case (Cons d ds)
  obtain k sn1 where k: "node_key d sn = (k, sn1)" by (cases "node_key d sn")
  obtain kds1 sn2 where r: "node_keys ds sn1 = (kds1, sn2)" by (cases "node_keys ds sn1")
  from Cons.prems k r have "kds = (k, d) # kds1" by simp
  with Cons.IH [OF r] show ?case by simp
qed

lemma first_keys_nonempty: "kds \<noteq> [] \<Longrightarrow> first_keys [] kds \<noteq> []"
  by (cases kds) simp_all

lemma tree_nodes_nonempty: "tree_nodes t \<noteq> []"
  by (cases t) simp

lemma translate_raises: "orientation s = None \<Longrightarrow> translate s p = Inl TypeError"
  by (simp add: translate_def view_x_def)

lemma render_nodes_enter_raises:
  assumes "orientation s = None" and "g_nodes s = []" and "dat \<noteq> []"
  shows "render_nodes s dat p c = Inl TypeError"
proof -
  obtain kds sn2 where k: "node_keys dat (store s, nextId s) = (kds, sn2)"
    by (cases "node_keys dat (store s, nextId s)")
  from node_keys_data [OF k] assms(3) have "kds \<noteq> []" by auto
  then have "join_enter [] kds \<noteq> []"
    by (simp add: join_enter_def first_keys_nonempty)
  with assms(1,2) k show ?thesis
    by (simp add: render_nodes_def Let_def translate_def view_x_def split: option.splits)
qed

section \<open>What toggle leaves alone\<close>

lemma toggle_nodeData:
  assumes "toggle s ident = Inr s'"
  shows "nodeData s' = nodeData s"
  using assms
  by (auto simp: toggle_def split: option.splits if_splits dest!: update_frame)

lemma toggle_node_id:
  assumes "toggle s ident = Inr s'" and "truthy (node_id (store s a))"
  shows "node_id (store s' a) = node_id (store s a)"
proof (cases "registry_get s (key_of ident)")
  case None
  with assms show ?thesis by (simp add: toggle_def)
next
  case (Some b)
  show ?thesis
  proof (cases "node_children (store s b) = None")
    case True
    with assms Some show ?thesis
      by (auto simp: toggle_def split: option.splits)
  next
    case False
    let ?s1 = "s\<lparr>store := (store s)(b := (store s b)\<lparr>isOpened := js_not (isOpened (store s b))\<rparr>)\<rparr>"
    from assms(1) Some False have u: "update ?s1 (currentId s) ident = Inr s'"
      by (auto simp: toggle_def)
    have i: "node_id (store ?s1 a) = node_id (store s a)" by simp
    from assms(2) i have "truthy (node_id (store ?s1 a))" by simp
    with update_store [OF u, of a] have "node_id (store s' a) = node_id (store ?s1 a)" by blast
    with i show ?thesis by simp
  qed
qed

section \<open>Facts used to evaluate the examples\<close>

lemmas ex_defs = ex_view_def ex_handlers_def ex_config_def ex_layout_def no_result_def
  prune_open_def prune_all_def ex_store_def mk_node_def constructor_def on_def reload_def
  NodeView_orientation_def returned_def ex_rooted_def ex_pending_def ex_expanded_def ex_zero_def
  ex_sideways_def ex_rooted0_def ex_hidden_def ex_prototype_def ex_numbered_def ex_resized_def

lemmas op_defs = setRoot_def update_def ref_pos_def ref_id_def render_nodes_def render_links_def
  join_update_def join_enter_def join_exit_def link_keys_def node_key_def layout_nodes_def
  place_def translate_def view_x_def view_y_def NodeView_pos_def toggle_def toggle_then_def
  store_children_def register_def js_not_def redraw_def resize_def fetch_count_def
  registry_get_def joined_def is_leaving_def transitions_end_def

lemma str_of_nat_small: "n < 10 \<Longrightarrow> str_of_nat n = [digit n]"
  by (simp add: str_of_nat.simps)

lemmas num_defs = str_of_nat_small digit_def

section \<open>setRoot\<close>

text \<open>
  C4. \<open>setRoot(undefined)\<close> returns the state it was given, unchanged. For a defined root
  \<open>r\<close>, \<open>setRoot\<close> is the render pass \<open>_update(root.id)\<close> run in the state in which the
  registry holds \<open>r\<close> under the key of its identifier and the current id is that
  identifier; when the pass returns, the registry is the old one with that one entry
  added, the current id is the root's identifier, and the pass has handed the root to the
  prune-nodes handler.
\<close>

theorem setRoot_stores_and_renders:
  "setRoot s None = Inr s
   \<and> setRoot s (Some r) =
       update (s\<lparr>nodeData := (nodeData s)(key_of (node_id (store s r)) \<mapsto> r),
                 currentId := node_id (store s r)\<rparr>) (node_id (store s r)) IdUndefined
   \<and> (setRoot s (Some r) = Inr s' \<longrightarrow>
        nodeData s' = (nodeData s)(key_of (node_id (store s r)) \<mapsto> r)
        \<and> currentId s' = node_id (store s r)
        \<and> (\<exists>es. effects s' = effects s @ CallPruneNodes (Some r) # es))"
proof -
  let ?s1 = "s\<lparr>nodeData := (nodeData s)(key_of (node_id (store s r)) \<mapsto> r),
                currentId := node_id (store s r)\<rparr>"
  have a: "setRoot s None = Inr s" by (simp add: setRoot_def)
  have b: "setRoot s (Some r) = update ?s1 (node_id (store s r)) IdUndefined"
    by (simp add: setRoot_def)
  have c: "nodeData s' = (nodeData s)(key_of (node_id (store s r)) \<mapsto> r)
        \<and> currentId s' = node_id (store s r)
        \<and> (\<exists>es. effects s' = effects s @ CallPruneNodes (Some r) # es)"
    if ok: "setRoot s (Some r) = Inr s'"
  proof -
    from ok b have u: "update ?s1 (node_id (store s r)) IdUndefined = Inr s'" by simp
    from update_reference [OF u] obtain es where
      "effects s' = effects ?s1 @ CallPruneNodes (registry_get ?s1 (key_of (node_id (store s r)))) # es"
      by blast
    with update_frame [OF u] show ?thesis by (simp add: registry_get_def)
  qed
  from a b c show ?thesis by blast
qed

theorem setRoot_stores_and_renders_witness:
  "setRoot ex_view (Some 0) = Inr (returned (setRoot ex_view (Some 0)))
   \<and> nodeData (returned (setRoot ex_view (Some 0))) = (nodeData ex_view)(''A'' \<mapsto> 0)
   \<and> currentId (returned (setRoot ex_view (Some 0))) = IdStr ''A''
   \<and> g_nodes (returned (setRoot ex_view (Some 0))) = [(0, Shown)]"
proof -
  let ?r = "returned (setRoot ex_view (Some 0))"
  have h: "setRoot ex_view (Some 0) = Inr ?r"
    by (simp add: ex_defs op_defs Let_def)
  have i: "node_id (store ex_view 0) = IdStr ''A''"
    by (simp add: ex_defs)
  have g: "g_nodes ?r = [(0, Shown)]"
    by (simp add: ex_defs op_defs Let_def)
  from setRoot_stores_and_renders [of ex_view 0 ?r] h
  have "nodeData ?r = (nodeData ex_view)(key_of (node_id (store ex_view 0)) \<mapsto> 0)
        \<and> currentId ?r = node_id (store ex_view 0)"
    by blast
  then have "nodeData ?r = (nodeData ex_view)(''A'' \<mapsto> 0) \<and> currentId ?r = IdStr ''A''"
    by (simp add: i)
  with h g show ?thesis by blast
qed

section \<open>toggle\<close>

text \<open>
  C9 (amended). \<open>toggle(id)\<close> raises a TypeError when \<open>this.nodeData[id]\<close> is undefined,
  that is when the key of the identifier is neither stored in the registry nor the name
  of a property that the registry object inherits: the \<open>_children\<close> field of the lookup is
  read without a guard. The callback of a fetch that resolves with children in such a
  state raises as well.
\<close>

theorem toggle_undefined_entry_raises:
  assumes "registry_get s (key_of ident) = None"
  shows "toggle s ident = Inl TypeError \<and> toggle_then s ident (Some cs) = Inl TypeError"
  using assms by (simp add: toggle_def toggle_then_def)

theorem toggle_undefined_entry_raises_witness:
  "registry_get ex_view (key_of (IdStr ''Z'')) = None
   \<and> toggle ex_view (IdStr ''Z'') = Inl TypeError
   \<and> toggle_then ex_view (IdStr ''Z'') (Some [1, 2]) = Inl TypeError"
proof -
  have h: "registry_get ex_view (key_of (IdStr ''Z'')) = None"
    by (simp add: ex_defs registry_get_def)
  from h toggle_undefined_entry_raises [OF h, of "[1, 2]"] show ?thesis by simp
qed

text \<open>
  C9 as stated, for every identifier that is not in the registry, fails: the registry is
  created as \<open>{}\<close> and inherits from \<open>Object.prototype\<close>. In the example view nothing is
  stored under "toString", yet \<open>this.nodeData["toString"]\<close> is the inherited function,
  whose \<open>_children\<close> is undefined: \<open>toggle("toString")\<close> does not raise and calls
  get-children.
\<close>

theorem toggle_inherited_key_counterexample:
  "nodeData ex_view (key_of (IdStr ''toString'')) = None
   \<and> toggle ex_view (IdStr ''toString'')
       = Inr (ex_view\<lparr>effects := [CallGetChildren (IdStr ''toString'')]\<rparr>)"
  by (simp add: ex_defs op_defs Let_def)

text \<open>
  C1 (amended). Let \<open>toggle(id)\<close> be called in a state \<open>s\<close> where the registry entry of
  \<open>id\<close> has no \<open>_children\<close>, and let the promise resolve in a state \<open>s1\<close> in which that
  entry is still registered. Let the identifiers be strings or integers below \<open>2^53\<close> in
  magnitude, and unique: the keys of \<open>id\<close> and of the children are pairwise different.
  Then the call does nothing but invoke
  get-children once; a promise resolved with \<open>undefined\<close> leaves the state as it is; a
  promise resolved with the children \<open>cs\<close> stores every child under the key of its
  identifier, sets \<open>_children\<close> of the parent, and is the render pass of the re-invoked
  \<open>toggle(id)\<close>, run with the parent's \<open>isOpened\<close> negated; when that pass returns, the
  flag is negated, the children are registered, and prune-nodes has been called.
\<close>

theorem toggle_unfetched_fetches_once:
  assumes reg: "nodeData s (key_of ident) = Some a"
    and unfetched: "node_children (store s a) = None"
    and handler: "handlers s ''get-children'' = Some h"
    and reg1: "nodeData s1 (key_of ident) = Some a"
    and uniq: "distinct (key_of ident # map (\<lambda>c. key_of (node_id (store s1 c))) cs)"
    and plain: "plain_id ident \<and> (\<forall>c \<in> set cs. plain_id (node_id (store s1 c)))"
  shows "toggle s ident = Inr (s\<lparr>effects := effects s @ [CallGetChildren ident]\<rparr>)
       \<and> toggle_then s1 ident None = Inr s1
       \<and> (\<forall>c \<in> set cs. nodeData (store_children s1 a cs) (key_of (node_id (store s1 c))) = Some c)
       \<and> node_children (store (store_children s1 a cs) a) = Some cs
       \<and> toggle_then s1 ident (Some cs) =
           update ((store_children s1 a cs)\<lparr>store := (store (store_children s1 a cs))
                     (a := (store (store_children s1 a cs) a)\<lparr>isOpened := js_not (isOpened (store s1 a))\<rparr>)\<rparr>)
                  (currentId s1) ident
       \<and> (toggle_then s1 ident (Some cs) = Inr s' \<longrightarrow>
            isOpened (store s' a) = js_not (isOpened (store s1 a))
          \<and> node_children (store s' a) = Some cs
          \<and> nodeData s' = nodeData (store_children s1 a cs)
          \<and> (\<exists>es. effects s' = effects s1 @
                 CallPruneNodes (registry_get (store_children s1 a cs) (key_of (currentId s1))) # es))"
proof -
  let ?s2 = "store_children s1 a cs"
  let ?s3 = "?s2\<lparr>store := (store ?s2)(a := (store ?s2 a)\<lparr>isOpened := js_not (isOpened (store s1 a))\<rparr>)\<rparr>"
  have t1: "toggle s ident = Inr (s\<lparr>effects := effects s @ [CallGetChildren ident]\<rparr>)"
    using reg unfetched handler by (simp add: toggle_def registry_get_def)
  have t2: "toggle_then s1 ident None = Inr s1"
    by (simp add: toggle_then_def)
  from uniq have d: "distinct (map (\<lambda>c. key_of (node_id (store s1 c))) cs)"
    and nk: "key_of ident \<notin> (\<lambda>c. key_of (node_id (store s1 c))) ` set cs"
    by simp_all
  have t3: "\<forall>c \<in> set cs. nodeData ?s2 (key_of (node_id (store s1 c))) = Some c"
    using store_children_stored [OF d] by blast
  have t4: "node_children (store ?s2 a) = Some cs"
    by (simp add: store_children_store)
  have r2: "nodeData ?s2 (key_of ident) = Some a"
    using store_children_other [OF nk] reg1 by simp
  have o2: "isOpened (store ?s2 a) = isOpened (store s1 a)"
    by (simp add: store_children_store)
  have "toggle ?s2 ident = update ?s3 (currentId ?s2) ident"
    using r2 t4 by (simp add: toggle_def o2 registry_get_def)
  then have t5: "toggle_then s1 ident (Some cs) = update ?s3 (currentId s1) ident"
    using reg1 by (simp add: toggle_then_def store_children_frame registry_get_def)
  have t6: "isOpened (store s' a) = js_not (isOpened (store s1 a))
          \<and> node_children (store s' a) = Some cs
          \<and> nodeData s' = nodeData ?s2
          \<and> (\<exists>es. effects s' = effects s1 @ CallPruneNodes (registry_get ?s2 (key_of (currentId s1))) # es)"
    if ok: "toggle_then s1 ident (Some cs) = Inr s'"
  proof -
    from ok t5 have u: "update ?s3 (currentId s1) ident = Inr s'" by simp
    from update_store [OF u, of a] t4
    have f1: "isOpened (store s' a) = js_not (isOpened (store s1 a))" "node_children (store s' a) = Some cs"
      by simp_all
    from update_frame [OF u] have f2: "nodeData s' = nodeData ?s2" by simp
    from update_reference [OF u] obtain es where
      "effects s' = effects ?s3 @ CallPruneNodes (registry_get ?s3 (key_of (currentId s1))) # es"
      by blast
    then have f3: "effects s' = effects s1 @ CallPruneNodes (registry_get ?s2 (key_of (currentId s1))) # es"
      by (simp add: store_children_frame)
    from f1 f2 f3 show ?thesis by blast
  qed
  from t1 t2 t3 t4 t5 t6 show ?thesis by blast
qed

theorem toggle_unfetched_fetches_once_witness:
  "toggle ex_rooted (IdStr ''A'') = Inr (ex_rooted\<lparr>effects := effects ex_rooted @ [CallGetChildren (IdStr ''A'')]\<rparr>)
   \<and> toggle_then ex_pending (IdStr ''A'') None = Inr ex_pending
   \<and> toggle_then ex_pending (IdStr ''A'') (Some [1, 2]) = Inr ex_expanded
   \<and> nodeData ex_expanded ''B'' = Some 1 \<and> nodeData ex_expanded ''C'' = Some 2
   \<and> node_children (store ex_expanded 0) = Some [1, 2]
   \<and> isOpened (store ex_expanded 0) = Some True
   \<and> fetch_count ex_expanded = 1"
proof -
  have a: "nodeData ex_rooted (key_of (IdStr ''A'')) = Some 0"
    and b: "node_children (store ex_rooted 0) = None"
    and c: "handlers ex_rooted ''get-children'' = Some no_result"
    and d: "nodeData ex_pending (key_of (IdStr ''A'')) = Some 0"
    and e: "distinct (key_of (IdStr ''A'') # map (\<lambda>c. key_of (node_id (store ex_pending c))) [1, 2])"
    and e': "plain_id (IdStr ''A'') \<and> (\<forall>c \<in> set [1, 2]. plain_id (node_id (store ex_pending c)))"
    by (simp_all add: ex_defs op_defs Let_def)
  have ok: "toggle_then ex_pending (IdStr ''A'') (Some [1, 2]) = Inr ex_expanded"
    by (simp add: ex_defs op_defs Let_def)
  have f: "nodeData ex_expanded ''B'' = Some 1 \<and> nodeData ex_expanded ''C'' = Some 2
           \<and> isOpened (store ex_expanded 0) = Some True \<and> fetch_count ex_expanded = 1"
    by (simp add: ex_defs op_defs Let_def)
  from toggle_unfetched_fetches_once [OF a b c d e e', of ex_expanded] ok
  have "toggle ex_rooted (IdStr ''A'') = Inr (ex_rooted\<lparr>effects := effects ex_rooted @ [CallGetChildren (IdStr ''A'')]\<rparr>)
     \<and> toggle_then ex_pending (IdStr ''A'') None = Inr ex_pending
     \<and> node_children (store ex_expanded 0) = Some [1, 2]"
    by blast
  with ok f show ?thesis by blast
qed

text \<open>
  C1 as stated, for every call and every resolved sequence of children, fails. The
  callback looks the toggled identifier up again after it has stored the children: when
  the promise of \<open>toggle("A")\<close> resolves with a child whose identifier is "A" as well, the
  child takes the registry entry of its parent, the re-invoked \<open>toggle("A")\<close> finds a record
  without \<open>_children\<close> and calls get-children a second time; no flag is negated and no
  render pass runs. And when \<open>reload()\<close> has emptied the registry while the fetch was
  pending, the callback raises.
\<close>

theorem toggle_child_takes_parent_entry_counterexample:
  "nodeData ex_pending (key_of (IdStr ''A'')) = Some 0
   \<and> node_id (store ex_pending 7) = IdStr ''A''
   \<and> toggle_then ex_pending (IdStr ''A'') (Some [7])
       = Inr (returned (toggle_then ex_pending (IdStr ''A'') (Some [7])))
   \<and> effects (returned (toggle_then ex_pending (IdStr ''A'') (Some [7])))
       = effects ex_pending @ [CallGetChildren (IdStr ''A'')]
   \<and> isOpened (store (returned (toggle_then ex_pending (IdStr ''A'') (Some [7]))) 0) = None
   \<and> nodeData (returned (toggle_then ex_pending (IdStr ''A'') (Some [7]))) ''A'' = Some 7
   \<and> toggle_then (reload ex_pending) (IdStr ''A'') (Some [1, 2]) = Inl TypeError"
  by (simp add: ex_defs op_defs num_defs Let_def)

text \<open>
  C3 (amended). Let \<open>toggle(id)\<close> be called with a truthy \<open>id\<close> whose registry entry has
  \<open>_children\<close> (empty or not). Then the call is the render pass \<open>_update(this.currentId, id)\<close>
  run with the entry's \<open>isOpened\<close> negated. When the pass returns, get-children has not
  been called, the flag is negated, the current id is unchanged, the pass has handed the
  registry entry of the current id to prune-nodes, and the reference position for the
  entering elements is the position the toggled node had before the pass.
\<close>

theorem toggle_fetched_flips_and_renders:
  assumes reg: "nodeData s (key_of ident) = Some a"
    and fetched: "node_children (store s a) \<noteq> None"
    and tr: "truthy ident"
  shows "toggle s ident =
           update (s\<lparr>store := (store s)(a := (store s a)\<lparr>isOpened := js_not (isOpened (store s a))\<rparr>)\<rparr>)
                  (currentId s) ident
       \<and> (toggle s ident = Inr s' \<longrightarrow>
            fetch_count s' = fetch_count s
          \<and> isOpened (store s' a) = js_not (isOpened (store s a))
          \<and> currentId s' = currentId s
          \<and> (\<exists>es1 ent es2. effects s' = effects s @ CallPruneNodes (registry_get s (key_of (currentId s))) #
                 es1 @ EnterNodes ent (NodeView_pos (store s a)) # es2))"
proof -
  let ?s1 = "s\<lparr>store := (store s)(a := (store s a)\<lparr>isOpened := js_not (isOpened (store s a))\<rparr>)\<rparr>"
  have t: "toggle s ident = update ?s1 (currentId s) ident"
    using reg fetched by (auto simp: toggle_def registry_get_def)
  have p: "ref_pos ?s1 ident = Inr (NodeView_pos (store s a))"
    using reg tr by (simp add: ref_pos_def ref_id_def NodeView_pos_def registry_get_def)
  have r: "fetch_count s' = fetch_count s
          \<and> isOpened (store s' a) = js_not (isOpened (store s a))
          \<and> currentId s' = currentId s
          \<and> (\<exists>es1 ent es2. effects s' = effects s @ CallPruneNodes (registry_get s (key_of (currentId s))) #
                 es1 @ EnterNodes ent (NodeView_pos (store s a)) # es2)"
    if ok: "toggle s ident = Inr s'"
  proof -
    from ok t have u: "update ?s1 (currentId s) ident = Inr s'" by simp
    from update_frame [OF u] have f: "fetch_count s' = fetch_count s" "currentId s' = currentId s"
      by (simp_all add: fetch_count_def)
    from update_store [OF u, of a] have o: "isOpened (store s' a) = js_not (isOpened (store s a))"
      by simp
    from update_reference [OF u] p
    have "\<exists>es1 ent es2. effects s' = effects s @ CallPruneNodes (registry_get s (key_of (currentId s))) #
                 es1 @ EnterNodes ent (NodeView_pos (store s a)) # es2"
      by simp
    with f o show ?thesis by blast
  qed
  from t r show ?thesis by blast
qed

theorem toggle_fetched_flips_and_renders_witness:
  "toggle ex_expanded (IdStr ''A'') = Inr (returned (toggle ex_expanded (IdStr ''A'')))
   \<and> truthy (IdStr ''A'')
   \<and> node_children (store ex_expanded 0) = Some [1, 2]
   \<and> isOpened (store ex_expanded 0) = Some True
   \<and> isOpened (store (returned (toggle ex_expanded (IdStr ''A''))) 0) = Some False
   \<and> fetch_count (returned (toggle ex_expanded (IdStr ''A''))) = fetch_count ex_expanded
   \<and> currentId (returned (toggle ex_expanded (IdStr ''A''))) = currentId ex_expanded"
proof -
  let ?r = "returned (toggle ex_expanded (IdStr ''A''))"
  have a: "nodeData ex_expanded (key_of (IdStr ''A'')) = Some 0"
    and b: "node_children (store ex_expanded 0) \<noteq> None"
    and c: "truthy (IdStr ''A'')"
    and d: "node_children (store ex_expanded 0) = Some [1, 2]"
    and e: "isOpened (store ex_expanded 0) = Some True"
    by (simp_all add: ex_defs op_defs Let_def)
  have ok: "toggle ex_expanded (IdStr ''A'') = Inr ?r"
    by (simp add: ex_defs op_defs Let_def)
  from toggle_fetched_flips_and_renders [OF a b c, of ?r] ok
  have "fetch_count ?r = fetch_count ex_expanded
        \<and> isOpened (store ?r 0) = js_not (isOpened (store ex_expanded 0))
        \<and> currentId ?r = currentId ex_expanded"
    by blast
  then have "fetch_count ?r = fetch_count ex_expanded \<and> isOpened (store ?r 0) = Some False
        \<and> currentId ?r = currentId ex_expanded"
    by (simp add: e js_not_def)
  with ok c d e show ?thesis by blast
qed

text \<open>
  C3 as stated, for every identifier, fails: \<open>toggleId || this.currentId\<close> takes the
  current root for the identifier 0. In \<open>ex_zero\<close> the object \<open>{id: 0, _children: []}\<close> is
  registered under "0" and stands at (300, 50); \<open>toggle(0)\<close> renders with the reference
  position (0, 50), that of the root "A".
\<close>

theorem toggle_falsy_id_reference_counterexample:
  "nodeData ex_zero (key_of (IdNum 0)) = Some 6
   \<and> node_children (store ex_zero 6) = Some []
   \<and> NodeView_pos (store ex_zero 6) = (300, 50)
   \<and> toggle ex_zero (IdNum 0) = Inr (returned (toggle ex_zero (IdNum 0)))
   \<and> drop (length (effects ex_zero)) (effects (returned (toggle ex_zero (IdNum 0)))) =
       [CallPruneNodes (Some 0), CallTreeNodes (PNode 0 [PNode 6 []]), CallUpdateNodes [0, 6],
        EnterNodes [] (0, 50), CallAddNodes [], CallUpdateNodes [], ExitNodes [] (0, 50),
        EnterLinks [] (0, 50), ExitLinks [] (0, 50)]"
  by (simp add: ex_defs op_defs num_defs Let_def)

section \<open>The registry\<close>

text \<open>
  C5 (amended). No public operation removes a key from the registry. \<open>setRoot\<close> binds the
  key of the root's identifier to the root, and the callback of a resolved fetch binds
  the key of each child's identifier to a child with that key; a record that the key was
  bound to before is replaced, every other key keeps its record. \<open>toggle\<close>, \<open>redraw\<close>,
  \<open>resize\<close>, \<open>centerNode\<close> and \<open>on\<close> leave the registry as it is, and \<open>reload\<close> replaces
  it by an empty one. A render pass changes neither the expansion flag nor the children
  of any record, nor an identifier that is truthy.
\<close>

theorem registry_keys_persist:
  "setRoot s None = Inr s
   \<and> (setRoot s (Some r) = Inr s' \<longrightarrow>
        nodeData s' = (nodeData s)(key_of (node_id (store s r)) \<mapsto> r))
   \<and> (toggle s ident = Inr s' \<longrightarrow> nodeData s' = nodeData s)
   \<and> toggle_then s ident None = Inr s
   \<and> (toggle_then s ident (Some cs) = Inr s' \<longrightarrow>
        dom (nodeData s') = dom (nodeData s) \<union> (\<lambda>c. key_of (node_id (store s c))) ` set cs
        \<and> (\<forall>k. k \<notin> (\<lambda>c. key_of (node_id (store s c))) ` set cs \<longrightarrow> nodeData s' k = nodeData s k)
        \<and> (\<forall>k \<in> (\<lambda>c. key_of (node_id (store s c))) ` set cs.
              \<exists>c \<in> set cs. nodeData s' k = Some c \<and> key_of (node_id (store s c)) = k))
   \<and> (redraw s = Inr s' \<longrightarrow> nodeData s' = nodeData s)
   \<and> (resize s w h = Inr s' \<longrightarrow> nodeData s' = nodeData s)
   \<and> nodeData (centerNode s) = nodeData s
   \<and> nodeData (on s event handler) = nodeData s
   \<and> nodeData (reload s) = Map.empty
   \<and> (update s rootId toggleId = Inr s' \<longrightarrow>
        nodeData s' = nodeData s
        \<and> (\<forall>a. isOpened (store s' a) = isOpened (store s a)
               \<and> node_children (store s' a) = node_children (store s a)
               \<and> (truthy (node_id (store s a)) \<longrightarrow> node_id (store s' a) = node_id (store s a))))"
proof -
  let ?K = "(\<lambda>c. key_of (node_id (store s c))) ` set cs"
  have a0: "setRoot s None = Inr s" by (simp add: setRoot_def)
  have a: "nodeData s' = (nodeData s)(key_of (node_id (store s r)) \<mapsto> r)"
    if "setRoot s (Some r) = Inr s'"
    using that by (auto simp: setRoot_def dest!: update_frame)
  have b: "nodeData s' = nodeData s" if "toggle s ident = Inr s'"
    using that by (rule toggle_nodeData)
  have c0: "toggle_then s ident None = Inr s" by (simp add: toggle_then_def)
  have c: "dom (nodeData s') = dom (nodeData s) \<union> ?K
        \<and> (\<forall>k. k \<notin> ?K \<longrightarrow> nodeData s' k = nodeData s k)
        \<and> (\<forall>k \<in> ?K. \<exists>c \<in> set cs. nodeData s' k = Some c \<and> key_of (node_id (store s c)) = k)"
    if t: "toggle_then s ident (Some cs) = Inr s'"
  proof -
    from t obtain p where "toggle (store_children s p cs) ident = Inr s'"
      by (auto simp: toggle_then_def split: option.splits)
    from toggle_nodeData [OF this] have n: "nodeData s' = nodeData (store_children s p cs)" .
    show ?thesis
      unfolding n using store_children_dom [of s p cs] store_children_other [of _ s cs p]
        store_children_bound [of _ s cs p]
      by blast
  qed
  have d: "nodeData s' = nodeData s" if "redraw s = Inr s'"
    using that by (auto simp: redraw_def split: if_splits dest!: update_frame)
  have e: "nodeData s' = nodeData s" if "resize s w h = Inr s'"
    using that by (auto simp: resize_def dest!: update_frame)
  have f: "nodeData (centerNode s) = nodeData s" "nodeData (on s event handler) = nodeData s"
    "nodeData (reload s) = Map.empty"
    by (simp_all add: centerNode_def on_def reload_def)
  have g: "nodeData s' = nodeData s
        \<and> (\<forall>a. isOpened (store s' a) = isOpened (store s a)
               \<and> node_children (store s' a) = node_children (store s a)
               \<and> (truthy (node_id (store s a)) \<longrightarrow> node_id (store s' a) = node_id (store s a)))"
    if u: "update s rootId toggleId = Inr s'"
    using update_frame [OF u] update_store [OF u] by blast
  from a0 a b c0 c d e f g show ?thesis by blast
qed

theorem registry_keys_persist_witness:
  "setRoot ex_view (Some 0) = Inr ex_rooted
   \<and> nodeData ex_rooted = (nodeData ex_view)(''A'' \<mapsto> 0)
   \<and> toggle_then ex_pending (IdStr ''A'') (Some [1, 2]) = Inr ex_expanded
   \<and> dom (nodeData ex_expanded) = dom (nodeData ex_pending) \<union> {''B'', ''C''}
   \<and> nodeData ex_expanded ''A'' = nodeData ex_pending ''A''
   \<and> nodeData ex_pending ''A'' = Some 0
   \<and> nodeData (reload ex_expanded) = Map.empty"
proof -
  have a: "setRoot ex_view (Some 0) = Inr ex_rooted"
    and b: "toggle_then ex_pending (IdStr ''A'') (Some [1, 2]) = Inr ex_expanded"
    and c: "nodeData ex_pending ''A'' = Some 0"
    and k: "key_of (node_id (store ex_view 0)) = ''A''"
      "(\<lambda>c. key_of (node_id (store ex_pending c))) ` set [1, 2] = {''B'', ''C''}"
    by (simp_all add: ex_defs op_defs Let_def)
  from registry_keys_persist [where s = ex_view and r = 0 and s' = ex_rooted] a
  have d: "nodeData ex_rooted = (nodeData ex_view)(key_of (node_id (store ex_view 0)) \<mapsto> 0)"
    by blast
  note t = registry_keys_persist [where s = ex_pending and s' = ex_expanded
      and ident = "IdStr ''A''" and cs = "[1, 2]"]
  from t b
  have e: "dom (nodeData ex_expanded)
             = dom (nodeData ex_pending) \<union> (\<lambda>c. key_of (node_id (store ex_pending c))) ` set [1, 2]"
    by blast
  from t b
  have "\<forall>k. k \<notin> (\<lambda>c. key_of (node_id (store ex_pending c))) ` set [1, 2]
           \<longrightarrow> nodeData ex_expanded k = nodeData ex_pending k"
    by blast
  then have f: "nodeData ex_expanded ''A'' = nodeData ex_pending ''A''"
    unfolding k by simp
  from registry_keys_persist [where s = ex_expanded]
  have g: "nodeData (reload ex_expanded) = Map.empty" by blast
  from a b c d e f g show ?thesis unfolding k by blast
qed

text \<open>
  C5 as stated, as an append-only registry whose stored entries persist, fails: an
  assignment to a key that is stored replaces the record. After \<open>setRoot\<close> of the object
  \<open>{id: "A"}\<close> at address 0, a \<open>setRoot\<close> of another object with the identifier "A" binds
  the key "A" to that object. And the expansion flag of a stored record, which is not a
  coordinate, is overwritten by \<open>toggle\<close>.
\<close>

theorem registry_entry_replaced_counterexample:
  "nodeData ex_rooted ''A'' = Some 0
   \<and> setRoot ex_rooted (Some 7) = Inr (returned (setRoot ex_rooted (Some 7)))
   \<and> nodeData (returned (setRoot ex_rooted (Some 7))) ''A'' = Some 7
   \<and> nodeData ex_expanded ''A'' = Some 0
   \<and> isOpened (store ex_expanded 0) = Some True
   \<and> toggle ex_expanded (IdStr ''A'') = Inr (returned (toggle ex_expanded (IdStr ''A'')))
   \<and> isOpened (store (returned (toggle ex_expanded (IdStr ''A''))) 0) = Some False"
  by (simp add: ex_defs op_defs num_defs Let_def)

section \<open>Node identifiers\<close>

text \<open>
  C6 (amended). A truthy identifier (a non-empty string or a non-zero number) is never
  changed: not by a render pass, and not by \<open>setRoot\<close>, \<open>toggle\<close>, the callback of a
  resolved fetch, \<open>redraw\<close>, \<open>resize\<close>, \<open>centerNode\<close>, \<open>on\<close> or \<open>reload\<close>.
\<close>

theorem truthy_id_stable:
  assumes tr: "truthy (node_id (store s a))"
  shows "(update s r tg = Inr s' \<longrightarrow> node_id (store s' a) = node_id (store s a))
   \<and> (setRoot s root = Inr s' \<longrightarrow> node_id (store s' a) = node_id (store s a))
   \<and> (toggle s ident = Inr s' \<longrightarrow> node_id (store s' a) = node_id (store s a))
   \<and> (toggle_then s ident children = Inr s' \<longrightarrow> node_id (store s' a) = node_id (store s a))
   \<and> (redraw s = Inr s' \<longrightarrow> node_id (store s' a) = node_id (store s a))
   \<and> (resize s w h = Inr s' \<longrightarrow> node_id (store s' a) = node_id (store s a))
   \<and> store (centerNode s) = store s
   \<and> store (on s event handler) = store s
   \<and> store (reload s) = store s"
proof -
  have u: "node_id (store s' a) = node_id (store s1 a)"
    if "update s1 r1 t1 = Inr s'" and "truthy (node_id (store s1 a))" for s1 r1 t1
    using update_store [OF that(1), of a] that(2) by simp
  have p1: "node_id (store s' a) = node_id (store s a)" if "update s r tg = Inr s'"
    using u [OF that tr] .
  have p2: "node_id (store s' a) = node_id (store s a)" if "setRoot s root = Inr s'"
  proof (cases root)
    case None
    with that show ?thesis by (simp add: setRoot_def)
  next
    case (Some b)
    let ?s1 = "s\<lparr>nodeData := (nodeData s)(key_of (node_id (store s b)) \<mapsto> b),
                  currentId := node_id (store s b)\<rparr>"
    from that Some have "update ?s1 (node_id (store s b)) IdUndefined = Inr s'"
      by (simp add: setRoot_def)
    from u [OF this] tr show ?thesis by simp
  qed
  have p3: "node_id (store s' a) = node_id (store s a)" if "toggle s ident = Inr s'"
    using toggle_node_id [OF that tr] .
  have p4: "node_id (store s' a) = node_id (store s a)" if t: "toggle_then s ident children = Inr s'"
  proof (cases children)
    case None
    with t show ?thesis by (simp add: toggle_then_def)
  next
    case (Some cs)
    with t obtain p where tg: "toggle (store_children s p cs) ident = Inr s'"
      by (auto simp: toggle_then_def split: option.splits)
    have i: "node_id (store (store_children s p cs) a) = node_id (store s a)"
      by (simp add: store_children_store)
    from tr i have "truthy (node_id (store (store_children s p cs) a))" by simp
    from toggle_node_id [OF tg this] i show ?thesis by simp
  qed
  have p5: "node_id (store s' a) = node_id (store s a)" if "redraw s = Inr s'"
    using that u [of s "currentId s" IdUndefined] tr by (auto simp: redraw_def split: if_splits)
  have p6: "node_id (store s' a) = node_id (store s a)" if "resize s w h = Inr s'"
  proof -
    from that have "update (s\<lparr>nodeSize := (w, h)\<rparr>) (currentId s) IdUndefined = Inr s'"
      by (simp add: resize_def)
    from u [OF this] tr show ?thesis by simp
  qed
  have p7: "store (centerNode s) = store s" "store (on s event handler) = store s"
    "store (reload s) = store s"
    by (simp_all add: centerNode_def on_def reload_def)
  from p1 p2 p3 p4 p5 p6 p7 show ?thesis by blast
qed

theorem truthy_id_stable_witness:
  "truthy (node_id (store ex_expanded 1))
   \<and> toggle ex_expanded (IdStr ''A'') = Inr (returned (toggle ex_expanded (IdStr ''A'')))
   \<and> node_id (store ex_expanded 1) = IdStr ''B''
   \<and> node_id (store (returned (toggle ex_expanded (IdStr ''A''))) 1) = IdStr ''B''"
proof -
  let ?r = "returned (toggle ex_expanded (IdStr ''A''))"
  have i: "node_id (store ex_expanded 1) = IdStr ''B''"
    and ok: "toggle ex_expanded (IdStr ''A'') = Inr ?r"
    by (simp_all add: ex_defs op_defs Let_def)
  from i have tr: "truthy (node_id (store ex_expanded 1))" by simp
  from truthy_id_stable [OF tr, of _ _ ?r _ "IdStr ''A''"] ok
  have "node_id (store ?r 1) = node_id (store ex_expanded 1)" by blast
  with tr ok i show ?thesis by simp
qed

text \<open>
  C6 as stated, with the identifiers 0 and "" included, fails: the key function
  \<open>d.id || (d.id = this.nextId++)\<close> takes a falsy identifier for a missing one. The first
  render of the object \<open>{id: ""}\<close> makes its identifier 0; the object \<open>{id: 0}\<close> keeps 0
  in its first render, where the counter is 0, and gets 1 in the next one.
\<close>

theorem falsy_id_replaced_counterexample:
  "node_id (store ex_view 4) = IdStr []
   \<and> setRoot ex_view (Some 4) = Inr (returned (setRoot ex_view (Some 4)))
   \<and> node_id (store (returned (setRoot ex_view (Some 4))) 4) = IdNum 0
   \<and> node_id (store ex_rooted0 3) = IdNum 0
   \<and> resize ex_rooted0 80 80 = Inr (returned (resize ex_rooted0 80 80))
   \<and> node_id (store (returned (resize ex_rooted0 80 80)) 3) = IdNum 1"
  by (simp add: ex_defs op_defs num_defs Let_def)

section \<open>The registry and the tree that is laid out\<close>

text \<open>
  C7 (amended). When a fetch resolves with the children \<open>cs\<close> of a registered node, the
  re-invoked \<open>toggle\<close>, and with it the render pass and its layout, runs in a state in
  which the key of the toggled identifier and the key of every child's identifier are
  registered, and the children are the \<open>_children\<close> of the toggled node. The tree that
  prune-nodes returns is not compared with the registry.
\<close>

theorem fetched_children_registered:
  assumes reg: "nodeData s (key_of ident) = Some a"
  shows "toggle_then s ident (Some cs) = toggle (store_children s a cs) ident
       \<and> (\<forall>c \<in> set cs. key_of (node_id (store (store_children s a cs) c))
                           \<in> dom (nodeData (store_children s a cs)))
       \<and> key_of ident \<in> dom (nodeData (store_children s a cs))
       \<and> node_children (store (store_children s a cs) a) = Some cs"
proof -
  let ?s2 = "store_children s a cs"
  have a: "toggle_then s ident (Some cs) = toggle ?s2 ident"
    using reg by (simp add: toggle_then_def registry_get_own)
  have k: "key_of (node_id (store ?s2 c)) = key_of (node_id (store s c))" for c
    by (simp add: store_children_store)
  have b: "\<forall>c \<in> set cs. key_of (node_id (store ?s2 c)) \<in> dom (nodeData ?s2)"
    unfolding k store_children_dom by blast
  from reg have c: "key_of ident \<in> dom (nodeData ?s2)"
    unfolding store_children_dom by blast
  have d: "node_children (store ?s2 a) = Some cs"
    by (simp add: store_children_store)
  from a b c d show ?thesis by blast
qed

theorem fetched_children_registered_witness:
  "nodeData ex_pending (key_of (IdStr ''A'')) = Some 0
   \<and> key_of (node_id (store (store_children ex_pending 0 [1, 2]) 1)) = ''B''
   \<and> key_of (node_id (store (store_children ex_pending 0 [1, 2]) 2)) = ''C''
   \<and> ''A'' \<in> dom (nodeData (store_children ex_pending 0 [1, 2]))
   \<and> ''B'' \<in> dom (nodeData (store_children ex_pending 0 [1, 2]))
   \<and> ''C'' \<in> dom (nodeData (store_children ex_pending 0 [1, 2]))"
proof -
  let ?s2 = "store_children ex_pending 0 [1, 2]"
  have reg: "nodeData ex_pending (key_of (IdStr ''A'')) = Some 0"
    and k: "key_of (node_id (store ?s2 1)) = ''B''" "key_of (node_id (store ?s2 2)) = ''C''"
    by (simp_all add: ex_defs op_defs Let_def)
  from fetched_children_registered [OF reg, of "[1, 2]"]
  have "key_of (node_id (store ?s2 1)) \<in> dom (nodeData ?s2)"
    and "key_of (node_id (store ?s2 2)) \<in> dom (nodeData ?s2)"
    and "key_of (IdStr ''A'') \<in> dom (nodeData ?s2)"
    by simp_all
  with reg k show ?thesis by simp
qed

text \<open>
  C7 as stated, for the tree that prune-nodes returns, fails: the handler decides what
  the tree holds. \<open>setRoot\<close> of the object \<open>{id: "R", isOpened: true, _children: [{id: "B"}]}\<close>
  registers "R" only; the handler \<open>prune_open\<close> returns the root with its child, and the
  layout is handed the edge from "R" to "B" while "B" is not in the registry.
\<close>

theorem pruned_edge_unregistered_counterexample:
  "setRoot ex_view (Some 5) = Inr (returned (setRoot ex_view (Some 5)))
   \<and> take 2 (effects (returned (setRoot ex_view (Some 5)))) =
       [CallPruneNodes (Some 5), CallTreeNodes (PNode 5 [PNode 1 []])]
   \<and> tree_links (PNode 5 [PNode 1 []]) = [(5, 1)]
   \<and> node_id (store ex_view 1) = IdStr ''B''
   \<and> nodeData (returned (setRoot ex_view (Some 5))) ''R'' = Some 5
   \<and> nodeData (returned (setRoot ex_view (Some 5))) ''B'' = None"
  by (simp add: ex_defs op_defs num_defs Let_def)

section \<open>redraw\<close>

text \<open>
  C8 (amended). When the current id is truthy, \<open>redraw()\<close> is the render pass rooted at
  the current id: when it returns, the current id and the registry are unchanged and
  prune-nodes has been handed the registry entry of the current id. That is the case
  after a \<open>setRoot\<close> with a root whose identifier is truthy. When no current id has been
  set, as in a newly constructed view, \<open>redraw()\<close> returns the state unchanged.
\<close>

theorem redraw_renders_truthy_root:
  "(truthy (currentId s) \<longrightarrow> redraw s = update s (currentId s) IdUndefined)
   \<and> (truthy (currentId s) \<and> redraw s = Inr s' \<longrightarrow>
        currentId s' = currentId s \<and> nodeData s' = nodeData s
        \<and> (\<exists>es. effects s' = effects s @ CallPruneNodes (registry_get s (key_of (currentId s))) # es))
   \<and> (currentId s = IdUndefined \<longrightarrow> redraw s = Inr s)
   \<and> redraw (constructor proto lay st cfg) = Inr (constructor proto lay st cfg)
   \<and> (setRoot s0 (Some r) = Inr s \<and> truthy (node_id (store s0 r)) \<longrightarrow>
        redraw s = update s (node_id (store s0 r)) IdUndefined)"
proof -
  have a: "truthy (currentId s) \<longrightarrow> redraw s = update s (currentId s) IdUndefined"
    by (simp add: redraw_def)
  have b: "currentId s' = currentId s \<and> nodeData s' = nodeData s
        \<and> (\<exists>es. effects s' = effects s @ CallPruneNodes (registry_get s (key_of (currentId s))) # es)"
    if "truthy (currentId s)" and "redraw s = Inr s'"
  proof -
    from that have u: "update s (currentId s) IdUndefined = Inr s'" by (simp add: redraw_def)
    from update_reference [OF u] obtain es where
      "effects s' = effects s @ CallPruneNodes (registry_get s (key_of (currentId s))) # es"
      by blast
    with update_frame [OF u] show ?thesis by simp
  qed
  have c: "currentId s = IdUndefined \<longrightarrow> redraw s = Inr s"
    by (simp add: redraw_def)
  have d: "redraw (constructor proto lay st cfg) = Inr (constructor proto lay st cfg)"
    by (simp add: redraw_def constructor_def reload_def)
  have e: "redraw s = update s (node_id (store s0 r)) IdUndefined"
    if "setRoot s0 (Some r) = Inr s" and "truthy (node_id (store s0 r))"
  proof -
    from that(1) have "currentId s = node_id (store s0 r)"
      by (auto simp: setRoot_def dest!: update_frame)
    with that(2) show ?thesis by (simp add: redraw_def)
  qed
  from a b c d e show ?thesis by blast
qed

theorem redraw_renders_truthy_root_witness:
  "truthy (currentId ex_rooted)
   \<and> setRoot ex_view (Some 0) = Inr ex_rooted \<and> truthy (node_id (store ex_view 0))
   \<and> redraw ex_rooted = Inr (returned (redraw ex_rooted))
   \<and> redraw ex_rooted = update ex_rooted (IdStr ''A'') IdUndefined
   \<and> currentId (returned (redraw ex_rooted)) = IdStr ''A''
   \<and> currentId ex_view = IdUndefined \<and> redraw ex_view = Inr ex_view"
proof -
  let ?r = "returned (redraw ex_rooted)"
  have a: "truthy (currentId ex_rooted)" and a': "currentId ex_rooted = IdStr ''A''"
    and b: "setRoot ex_view (Some 0) = Inr ex_rooted"
    and c: "truthy (node_id (store ex_view 0))"
    and d: "redraw ex_rooted = Inr ?r"
    and e: "currentId ex_view = IdUndefined"
    by (simp_all add: ex_defs op_defs Let_def)
  note t = redraw_renders_truthy_root [where s = ex_rooted and s' = ?r and ?s0.0 = ex_view and r = 0]
  from t a d have f: "currentId ?r = currentId ex_rooted" by blast
  from t a have g: "redraw ex_rooted = update ex_rooted (currentId ex_rooted) IdUndefined" by blast
  from redraw_renders_truthy_root [where s = ex_view] e have h: "redraw ex_view = Inr ex_view" by blast
  from a b c d e f g h show ?thesis by (simp add: a')
qed

text \<open>
  C8 as stated, with the identifier 0 included, fails: the guard \<open>if (this.currentId)\<close>
  is false for 0. After \<open>setRoot\<close> of the object \<open>{id: 0}\<close> the current id is 0 and the root
  is registered, and \<open>redraw()\<close> returns the state unchanged, where the render pass rooted
  at the current id would have had nine effects more.
\<close>

theorem redraw_root_zero_counterexample:
  "setRoot ex_view (Some 3) = Inr ex_rooted0
   \<and> currentId ex_rooted0 = IdNum 0
   \<and> nodeData ex_rooted0 (key_of (IdNum 0)) = Some 3
   \<and> redraw ex_rooted0 = Inr ex_rooted0
   \<and> length (effects ex_rooted0) = 9
   \<and> length (effects (returned (update ex_rooted0 (currentId ex_rooted0) IdUndefined))) = 18"
  by (simp add: ex_defs op_defs num_defs Let_def)

section \<open>Orientation keys other than the two known ones\<close>

text \<open>
  C10 (amended). For an orientation key other than "top-to-bottom" and "left-to-right",
  \<open>NodeView.orientation\<close> returns \<open>undefined\<close>, and construction and \<open>reload\<close> complete and
  leave the orientation undefined. With an undefined orientation \<open>_translate\<close> raises a
  TypeError, and so does every render pass that is handed a tree by prune-nodes while no
  node element is rendered yet: its nodes enter, and entering nodes are positioned.
\<close>

theorem unknown_orientation_raises:
  assumes "k \<noteq> ''top-to-bottom''" and "k \<noteq> ''left-to-right''"
  shows "NodeView_orientation k = None
       \<and> orientation (constructor proto lay st (cfg\<lparr>orientKey := k\<rparr>)) = None
       \<and> (orientKey (config s) = k \<longrightarrow> orientation (reload s) = None)
       \<and> (orientation s1 = None \<longrightarrow> translate s1 p = Inl TypeError)
       \<and> (orientation s1 = None \<and> g_nodes s1 = [] \<and> handlers s1 ''prune-nodes'' = Some prune
            \<and> prune (store s1) (registry_get s1 (key_of r)) = Some t
          \<longrightarrow> update s1 r tg = Inl TypeError)"
proof -
  from assms have a: "NodeView_orientation k = None"
    by (simp add: NodeView_orientation_def)
  then have b: "orientation (constructor proto lay st (cfg\<lparr>orientKey := k\<rparr>)) = None"
    by (simp add: constructor_def reload_def)
  from a have c: "orientKey (config s) = k \<longrightarrow> orientation (reload s) = None"
    by (simp add: reload_def)
  have d: "orientation s1 = None \<longrightarrow> translate s1 p = Inl TypeError"
    by (simp add: translate_raises)
  have e: "update s1 r tg = Inl TypeError"
    if o: "orientation s1 = None" and g: "g_nodes s1 = []"
      and h: "handlers s1 ''prune-nodes'' = Some prune"
      and t: "prune (store s1) (registry_get s1 (key_of r)) = Some t"
  proof (cases "update s1 r tg")
    case (Inl e)
    then show ?thesis by (rule only_TypeError)
  next
    case (Inr s')
    let ?s2 = "s1\<lparr>currentId := r, effects := effects s1 @ [CallPruneNodes (registry_get s1 (key_of r))]\<rparr>"
    let ?s3 = "?s2\<lparr>store := layout_nodes ?s2 t, effects := effects ?s2 @ [CallTreeNodes t]\<rparr>"
    have "render_nodes ?s3 (tree_nodes t) pp cc = Inl TypeError" for pp cc
      by (rule render_nodes_enter_raises) (simp_all add: o g tree_nodes_nonempty)
    with Inr h t show ?thesis
      by (simp add: update_def Let_def split: sum.splits)
  qed
  from a b c d e show ?thesis by blast
qed

theorem unknown_orientation_raises_witness:
  "''sideways'' \<noteq> ''top-to-bottom'' \<and> ''sideways'' \<noteq> ''left-to-right''
   \<and> NodeView_orientation ''sideways'' = None
   \<and> orientation (ex_sideways prune_open) = None
   \<and> setRoot (ex_sideways prune_open) (Some 0) = Inl TypeError"
proof -
  let ?s = "ex_sideways prune_open"
  let ?s1 = "?s\<lparr>nodeData := (nodeData ?s)(key_of (node_id (store ?s 0)) \<mapsto> 0),
                 currentId := node_id (store ?s 0)\<rparr>"
  have a: "''sideways'' \<noteq> ''top-to-bottom''" and b: "''sideways'' \<noteq> ''left-to-right''"
    by simp_all
  have c: "orientation ?s = None"
    by (simp add: ex_defs)
  have d: "orientation ?s1 = None \<and> g_nodes ?s1 = [] \<and> handlers ?s1 ''prune-nodes'' = Some prune_open
           \<and> prune_open (store ?s1) (registry_get ?s1 (key_of (IdStr ''A''))) = Some (PNode 0 [])"
    by (simp add: ex_defs registry_get_def)
  have e: "setRoot ?s (Some 0) = update ?s1 (IdStr ''A'') IdUndefined"
    by (simp add: setRoot_def ex_defs)
  from unknown_orientation_raises [OF a b, where ?s1.0 = ?s1 and prune = prune_open
      and r = "IdStr ''A''" and t = "PNode 0 []" and tg = IdUndefined] d
  have "NodeView_orientation ''sideways'' = None \<and> update ?s1 (IdStr ''A'') IdUndefined = Inl TypeError"
    by blast
  with a b c e show ?thesis by simp
qed

text \<open>
  C10 as stated, for any render pass, fails: a pass in which prune-nodes returns
  \<open>undefined\<close> and nothing is rendered positions no element, and returns.
\<close>

theorem empty_render_pass_counterexample:
  "orientation (ex_sideways prune_all) = None
   \<and> setRoot (ex_sideways prune_all) (Some 0) = Inr (returned (setRoot (ex_sideways prune_all) (Some 0)))
   \<and> effects (returned (setRoot (ex_sideways prune_all) (Some 0))) =
       [CallPruneNodes (Some 0), CallUpdateNodes [], EnterNodes [] (0, 0), CallAddNodes [],
        CallUpdateNodes [], ExitNodes [] (0, 0), EnterLinks [] (0, 0), ExitLinks [] (0, 0)]"
  by (simp add: ex_defs op_defs num_defs Let_def)

section \<open>How many elements a render pass leaves\<close>

text \<open>
  C2 (amended). Let a render pass return, and let the transitions it started run to
  their end. When prune-nodes returned \<open>undefined\<close>, no node element and no link element
  is left in the container. When it returned a tree of K nodes that all have a truthy
  identifier, a string or an integer below \<open>2^53\<close> in magnitude, and whose identifiers
  are unique (their keys are pairwise different), K node elements and K - 1 link
  elements are left.
\<close>

theorem render_pass_element_counts:
  assumes u: "update s r tg = Inr s'"
    and h: "handlers s ''prune-nodes'' = Some prune"
  shows "(prune (store s) (registry_get s (key_of r)) = None \<longrightarrow>
            g_nodes (transitions_end s') = [] \<and> path_links (transitions_end s') = [])
       \<and> (prune (store s) (registry_get s (key_of r)) = Some t
            \<and> (\<forall>a \<in> set (tree_nodes t). truthy (node_id (store s a)) \<and> plain_id (node_id (store s a)))
            \<and> distinct (map (\<lambda>a. key_of (node_id (store s a))) (tree_nodes t))
          \<longrightarrow> length (g_nodes (transitions_end s')) = length (tree_nodes t)
            \<and> length (path_links (transitions_end s')) = length (tree_nodes t) - 1)"
proof -
  let ?root = "registry_get s (key_of r)"
  let ?s2 = "s\<lparr>currentId := r, effects := effects s @ [CallPruneNodes ?root]\<rparr>"
  from u obtain p where p: "ref_pos s tg = Inr p"
    by (cases "ref_pos s tg") (simp_all add: update_def)
  have none: "g_nodes (transitions_end s') = [] \<and> path_links (transitions_end s') = []"
    if n: "prune (store s) ?root = None"
  proof -
    from u p h n obtain c where c: "ref_pos ?s2 tg = Inr c"
      by (cases "ref_pos ?s2 tg") (simp_all add: update_def Let_def)
    from u p h n c obtain s4 where r4: "render_nodes ?s2 [] p c = Inr s4"
      by (cases "render_nodes ?s2 [] p c") (simp_all add: update_def Let_def)
    from u p h n c r4 have l: "render_links s4 [] p c = Inr s'"
      by (simp add: update_def Let_def)
    from render_links_frame [OF l] render_nodes_none [OF r4] render_links_none [OF l]
    show ?thesis by (simp add: transitions_end_def)
  qed
  have some: "length (g_nodes (transitions_end s')) = length (tree_nodes t)
            \<and> length (path_links (transitions_end s')) = length (tree_nodes t) - 1"
    if n: "prune (store s) ?root = Some t"
      and tr: "\<forall>a \<in> set (tree_nodes t). truthy (node_id (store s a)) \<and> plain_id (node_id (store s a))"
      and di: "distinct (map (\<lambda>a. key_of (node_id (store s a))) (tree_nodes t))"
  proof -
    let ?s3 = "?s2\<lparr>store := layout_nodes ?s2 t, effects := effects ?s2 @ [CallTreeNodes t]\<rparr>"
    from u p h n obtain c where c: "ref_pos ?s3 tg = Inr c"
      by (cases "ref_pos ?s3 tg") (simp_all add: update_def Let_def)
    from u p h n c obtain s4 where r4: "render_nodes ?s3 (tree_nodes t) p c = Inr s4"
      by (cases "render_nodes ?s3 (tree_nodes t) p c") (simp_all add: update_def Let_def)
    from u p h n c r4 have l: "render_links s4 (tree_links t) p c = Inr s'"
      by (simp add: update_def Let_def)
    have i3: "node_id (store ?s3 a) = node_id (store s a)" for a
      by (simp add: layout_nodes_fields)
    from tr have tr3: "\<forall>d \<in> set (tree_nodes t). truthy (node_id (store ?s3 d))"
      unfolding i3 by blast
    from di have di3: "distinct (map (\<lambda>d. key_of (node_id (store ?s3 d))) (tree_nodes t))"
      unfolding i3 .
    from render_nodes_count [OF r4 tr3 di3]
    have n4: "length (filter (\<lambda>e. \<not> is_leaving e) (g_nodes s4)) = length (tree_nodes t)"
      and i4: "\<forall>d \<in> set (tree_nodes t). node_id (store s4 d) = node_id (store s d)"
      unfolding i3 by simp_all
    have eq: "map (\<lambda>a. key_of (node_id (store s4 a))) (tree_nodes t)
            = map (\<lambda>a. key_of (node_id (store s a))) (tree_nodes t)"
      by (rule map_cong [OF refl]) (simp add: i4)
    from di have "distinct (map (\<lambda>a. key_of (node_id (store s4 a))) (tree_nodes t))"
      unfolding eq .
    from tree_targets_distinct [OF this]
    have "distinct (map (\<lambda>l. key_of (node_id (store s4 (snd l)))) (tree_links t))"
      by (simp add: comp_def)
    from render_links_count [OF l this]
    have "length (filter (\<lambda>e. \<not> is_leaving e) (path_links s')) = length (tree_links t)" .
    with render_links_frame [OF l] n4 show ?thesis
      by (simp add: tree_links_length transitions_end_def)
  qed
  from none some show ?thesis by blast
qed

theorem render_pass_element_counts_witness:
  "update ex_expanded (IdStr ''A'') IdUndefined = Inr (returned (update ex_expanded (IdStr ''A'') IdUndefined))
   \<and> prune_open (store ex_expanded) (registry_get ex_expanded (key_of (IdStr ''A'')))
        = Some (PNode 0 [PNode 1 [], PNode 2 []])
   \<and> tree_nodes (PNode 0 [PNode 1 [], PNode 2 []]) = [0, 1, 2]
   \<and> length (g_nodes (transitions_end (returned (update ex_expanded (IdStr ''A'') IdUndefined)))) = 3
   \<and> length (path_links (transitions_end (returned (update ex_expanded (IdStr ''A'') IdUndefined)))) = 2
   \<and> length (g_nodes ex_hidden) = 3
   \<and> update ex_hidden (IdStr ''A'') IdUndefined = Inr (returned (update ex_hidden (IdStr ''A'') IdUndefined))
   \<and> g_nodes (transitions_end (returned (update ex_hidden (IdStr ''A'') IdUndefined))) = []
   \<and> path_links (transitions_end (returned (update ex_hidden (IdStr ''A'') IdUndefined))) = []"
proof -
  let ?t = "PNode 0 [PNode 1 [], PNode 2 []]"
  let ?r = "returned (update ex_expanded (IdStr ''A'') IdUndefined)"
  let ?q = "returned (update ex_hidden (IdStr ''A'') IdUndefined)"
  have u: "update ex_expanded (IdStr ''A'') IdUndefined = Inr ?r"
    by (simp add: ex_defs op_defs Let_def)
  have h: "handlers ex_expanded ''prune-nodes'' = Some prune_open"
    by (simp add: ex_defs op_defs Let_def)
  have p: "prune_open (store ex_expanded) (registry_get ex_expanded (key_of (IdStr ''A''))) = Some ?t"
    by (simp add: ex_defs op_defs Let_def)
  have n: "tree_nodes ?t = [0, 1, 2]" by simp
  have tr: "\<forall>a \<in> set (tree_nodes ?t). truthy (node_id (store ex_expanded a))
              \<and> plain_id (node_id (store ex_expanded a))"
    by (simp add: ex_defs op_defs Let_def)
  have di: "distinct (map (\<lambda>a. key_of (node_id (store ex_expanded a))) (tree_nodes ?t))"
    by (simp add: ex_defs op_defs Let_def)
  from render_pass_element_counts [OF u h, of ?t] p tr di
  have "length (g_nodes (transitions_end ?r)) = length (tree_nodes ?t)
        \<and> length (path_links (transitions_end ?r)) = length (tree_nodes ?t) - 1"
    by blast
  then have a: "length (g_nodes (transitions_end ?r)) = 3 \<and> length (path_links (transitions_end ?r)) = 2"
    by (simp only: n) simp
  have u2: "update ex_hidden (IdStr ''A'') IdUndefined = Inr ?q"
    by (simp add: ex_defs op_defs Let_def)
  have h2: "handlers ex_hidden ''prune-nodes'' = Some prune_all"
    by (simp add: ex_hidden_def on_def)
  have p2: "prune_all (store ex_hidden) (registry_get ex_hidden (key_of (IdStr ''A''))) = None"
    by (simp add: prune_all_def)
  have g: "length (g_nodes ex_hidden) = 3"
    by (simp add: ex_defs op_defs Let_def)
  from render_pass_element_counts [OF u2 h2] p2
  have b: "g_nodes (transitions_end ?q) = [] \<and> path_links (transitions_end ?q) = []" by blast
  from u p n a g u2 b show ?thesis by blast
qed

text \<open>
  C2 as stated, for every tree and for the container as the render pass leaves it,
  fails twice. The exiting elements are removed only when their transition ends: the
  pass in which prune-nodes returns \<open>undefined\<close> for the expanded example view returns
  with three node elements and two link elements in the container, all leaving. And the
  count is one element for each key: in the second pass over the object
  \<open>{id: 0, isOpened: true, _children: [{id: 1}]}\<close> the key function gives the root, whose
  identifier 0 is falsy, the identifier 1 of its child, and of the two nodes of the tree
  one node element is left when the transitions have ended.
\<close>

theorem render_pass_counts_counterexample:
  "prune_all (store ex_hidden) (registry_get ex_hidden (key_of (IdStr ''A''))) = None
   \<and> update ex_hidden (IdStr ''A'') IdUndefined = Inr (returned (update ex_hidden (IdStr ''A'') IdUndefined))
   \<and> g_nodes (returned (update ex_hidden (IdStr ''A'') IdUndefined))
       = [(0, Leaving), (1, Leaving), (2, Leaving)]
   \<and> path_links (returned (update ex_hidden (IdStr ''A'') IdUndefined))
       = [((0, 1), Leaving), ((0, 2), Leaving)]
   \<and> node_id (store ex_numbered 8) = IdNum 0 \<and> node_id (store ex_numbered 9) = IdNum 1
   \<and> prune_open (store ex_numbered) (registry_get ex_numbered (key_of (currentId ex_numbered)))
       = Some (PNode 8 [PNode 9 []])
   \<and> resize ex_numbered 80 80 = Inr ex_resized
   \<and> g_nodes (transitions_end ex_resized) = [(8, Shown)]"
  by (simp add: ex_defs op_defs num_defs Let_def)

end
